theory Spec2Isabelle
  imports Main "HOL-Library.Sublist"
begin

section \<open>Strings, characters and effects\<close>

text \<open>
  A Go string is a sequence of bytes; the model is a \<open>char list\<close> with one \<open>char\<close> per
  byte, so a rune outside ASCII is the two to four bytes of its UTF-8 encoding. The patterns
  of the converter name ASCII characters only, apart from the zero-width space U+200B, which
  is the byte sequence E2 80 8B; a negated class or a dot matches a whole rune in Go and one
  byte here, which gives the same matches wherever such a class is repeated or is followed
  by an ASCII character, as it is in every pattern below.
\<close>

abbreviation newline :: char where
  "newline \<equiv> CHR 0x0A"

definition inRange :: "nat \<Rightarrow> nat \<Rightarrow> char \<Rightarrow> bool" where
  "inRange lo hi c = (lo \<le> of_char c \<and> (of_char c :: nat) \<le> hi)"

definition isDigit :: "char \<Rightarrow> bool" where
  "isDigit c = inRange 48 57 c"

definition isUpper :: "char \<Rightarrow> bool" where
  "isUpper c = inRange 65 90 c"

definition isLower :: "char \<Rightarrow> bool" where
  "isLower c = inRange 97 122 c"

definition isAlpha :: "char \<Rightarrow> bool" where
  "isAlpha c = (isUpper c \<or> isLower c)"

definition isAlnum :: "char \<Rightarrow> bool" where
  "isAlnum c = (isDigit c \<or> isAlpha c)"

definition isXdigit :: "char \<Rightarrow> bool" where
  "isXdigit c = (isDigit c \<or> inRange 65 70 c \<or> inRange 97 102 c)"

text \<open>The Perl class \<open>\w\<close> of Go's regexp syntax: \<open>[0-9A-Za-z_]\<close>.\<close>

definition isWord :: "char \<Rightarrow> bool" where
  "isWord c = (isAlnum c \<or> c = CHR ''_'')"

text \<open>The Perl class \<open>\s\<close> is \<open>[\t\n\f\r ]\<close>; the POSIX class \<open>[[:space:]]\<close> adds \<open>\v\<close>.\<close>

definition isPerlSpace :: "char \<Rightarrow> bool" where
  "isPerlSpace c = (c \<in> set [CHR 0x09, CHR 0x0A, CHR 0x0C, CHR 0x0D, CHR 0x20])"

definition isPosixSpace :: "char \<Rightarrow> bool" where
  "isPosixSpace c = (c \<in> set [CHR 0x09, CHR 0x0A, CHR 0x0B, CHR 0x0C, CHR 0x0D, CHR 0x20])"

text \<open>
  The converter returns strings; what it does besides is to write to the log and, for
  \<open>htdocs:\<close> links, to copy a file into the wiki repository. These effects are recorded in
  the order they happen. A log entry keeps the format string of the call.
\<close>

datatype effect =
    LogError string
  | LogWarn string
  | CopyFileToWiki string string

type_synonym world = "effect list"

section \<open>Go's regexp package\<close>

text \<open>
  Patterns are values of \<open>regexp\<close>, written as \<open>regexp.MustCompile\<close> parses them. Go
  matches leftmost-first: of the matches that start at the leftmost possible position it
  takes the one a backtracking search finds first, the first alternative of \<open>|\<close> before the
  second, one more repetition of a greedy \<open>*\<close> before none, and none before one more of a
  lazy \<open>*?\<close>. \<open>ms r st\<close> lists, in that order, the states that matching \<open>r\<close> from the state
  \<open>st\<close> can reach. A state is the text before the position (reversed), the text from the
  position on, and the submatches so far. \<open>x+\<close> is \<open>xx*\<close>, \<open>x?\<close> is \<open>x|\<close>, \<open>x{2,}\<close> is \<open>xxx*\<close>.
  \<open>BeginText\<close> is \<open>\A\<close> (and \<open>^\<close> without the flag \<open>m\<close>), \<open>EndText\<close> is \<open>\z\<close>, \<open>BeginLine\<close> and
  \<open>EndLine\<close> are \<open>^\<close> and \<open>$\<close> under the flag \<open>m\<close>. An unmatched group reads as the empty
  string, as it does in \<open>FindStringSubmatch\<close> and in a replacement template.
\<close>

type_synonym captures = "nat \<Rightarrow> string"

type_synonym mstate = "string \<times> string \<times> captures"

datatype regexp =
    Lit string
  | Cls "char \<Rightarrow> bool"
  | Seq regexp regexp
  | Alt regexp regexp
  | Star regexp
  | StarLazy regexp
  | Cap nat regexp
  | BeginText
  | EndText
  | BeginLine
  | EndLine

abbreviation Plus :: "regexp \<Rightarrow> regexp" where
  "Plus r \<equiv> Seq r (Star r)"

abbreviation PlusLazy :: "regexp \<Rightarrow> regexp" where
  "PlusLazy r \<equiv> Seq r (StarLazy r)"

abbreviation Opt :: "regexp \<Rightarrow> regexp" where
  "Opt r \<equiv> Alt r (Lit [])"

function ms :: "regexp \<Rightarrow> mstate \<Rightarrow> mstate list" where
  "ms (Lit l) (b, s, c) = (if prefix l s then [(rev l @ b, drop (length l) s, c)] else [])"
| "ms (Cls p) (b, s, c) =
     (case s of [] \<Rightarrow> [] | x # xs \<Rightarrow> if p x then [(x # b, xs, c)] else [])"
| "ms (Seq r1 r2) st = concat (map (ms r2) (ms r1 st))"
| "ms (Alt r1 r2) st = ms r1 st @ ms r2 st"
| "ms (Star r) (b, s, c) =
     concat (map (\<lambda>st'. if length (fst (snd st')) < length s then ms (Star r) st' else [])
                 (ms r (b, s, c)))
     @ [(b, s, c)]"
| "ms (StarLazy r) (b, s, c) =
     (b, s, c)
     # concat (map (\<lambda>st'. if length (fst (snd st')) < length s then ms (StarLazy r) st' else [])
                   (ms r (b, s, c)))"
| "ms (Cap n r) (b, s, c) =
     map (\<lambda>(b', s', c'). (b', s', c'(n := take (length s - length s') s))) (ms r (b, s, c))"
| "ms BeginText (b, s, c) = (if b = [] then [(b, s, c)] else [])"
| "ms EndText (b, s, c) = (if s = [] then [(b, s, c)] else [])"
| "ms BeginLine (b, s, c) = (if b = [] \<or> hd b = newline then [(b, s, c)] else [])"
| "ms EndLine (b, s, c) = (if s = [] \<or> hd s = newline then [(b, s, c)] else [])"
  by pat_completeness auto
termination
  by (relation "measures [\<lambda>(r, st). size r, \<lambda>(r, st). length (fst (snd st))]") auto

text \<open>
  The leftmost match of \<open>r\<close> in \<open>s\<close>, where \<open>b\<close> is the reversed text before \<open>s\<close>: the text
  skipped before the match, the match, its submatches, and the text after it.
\<close>

fun leftmost :: "regexp \<Rightarrow> string \<Rightarrow> string \<Rightarrow> (string \<times> string \<times> captures \<times> string) option" where
  "leftmost r b [] =
     (case ms r (b, [], \<lambda>_. []) of
        [] \<Rightarrow> None
      | (b', s', c') # _ \<Rightarrow> Some ([], [], c', []))"
| "leftmost r b (x # xs) =
     (case ms r (b, x # xs, \<lambda>_. []) of
        (b', s', c') # _ \<Rightarrow> Some ([], take (length (x # xs) - length s') (x # xs), c', s')
      | [] \<Rightarrow> map_option (\<lambda>(skip, m, c, rest). (x # skip, m, c, rest)) (leftmost r (x # b) xs))"

text \<open>The least number of characters a match of the pattern consumes.\<close>

fun minlen :: "regexp \<Rightarrow> nat" where
  "minlen (Lit l) = length l"
| "minlen (Cls p) = 1"
| "minlen (Seq r1 r2) = minlen r1 + minlen r2"
| "minlen (Alt r1 r2) = min (minlen r1) (minlen r2)"
| "minlen (Cap n r) = minlen r"
| "minlen _ = 0"

lemma ms_bounds:
  "st' \<in> set (ms r st) \<Longrightarrow>
     rev (fst st') @ fst (snd st') = rev (fst st) @ fst (snd st)
     \<and> length (fst (snd st')) + minlen r \<le> length (fst (snd st))"
proof (induction r st arbitrary: st' rule: ms.induct)
  case (1 l b s c)
  then show ?case by (auto simp: prefix_def split: if_splits)
next
  case (2 p b s c)
  then show ?case by (auto split: list.splits if_splits)
next
  case (3 r1 r2 st)
  from 3(3) obtain st1 where a: "st1 \<in> set (ms r1 st)" and b: "st' \<in> set (ms r2 st1)"
    by auto
  from 3(1)[OF a] 3(2)[OF a b] show ?case by simp
next
  case (4 r1 r2 st)
  from 4(3) consider "st' \<in> set (ms r1 st)" | "st' \<in> set (ms r2 st)" by auto
  then show ?case
  proof cases
    case 1
    from 4(1)[OF this] show ?thesis by (simp add: min_def)
  next
    case 2
    from 4(2)[OF this] show ?thesis by (simp add: min_def)
  qed
next
  case (5 r b s c)
  show ?case
  proof (cases "st' = (b, s, c)")
    case True
    then show ?thesis by simp
  next
    case False
    with 5(3) obtain st1 where a: "st1 \<in> set (ms r (b, s, c))"
      and l: "length (fst (snd st1)) < length s" and b: "st' \<in> set (ms (Star r) st1)"
      by (auto split: if_splits)
    from 5(1)[OF a] 5(2)[OF a l b] show ?thesis by simp
  qed
next
  case (6 r b s c)
  show ?case
  proof (cases "st' = (b, s, c)")
    case True
    then show ?thesis by simp
  next
    case False
    with 6(3) obtain st1 where a: "st1 \<in> set (ms r (b, s, c))"
      and l: "length (fst (snd st1)) < length s" and b: "st' \<in> set (ms (StarLazy r) st1)"
      by (auto split: if_splits)
    from 6(1)[OF a] 6(2)[OF a l b] show ?thesis by simp
  qed
next
  case (7 n r b s c)
  from 7(2) obtain b' s' c' where a: "(b', s', c') \<in> set (ms r (b, s, c))"
    and e: "st' = (b', s', c'(n := take (length s - length s') s))"
    by auto
  from 7(1)[OF a] e show ?case by simp
qed (auto split: if_splits)

lemma suffix_take:
  assumes "xs @ s' = ys @ s" and "length s' \<le> length s"
  shows "take (length s - length s') s @ s' = s"
proof -
  from assms have "length ys \<le> length xs" by (metis add_le_cancel_left length_append add.commute le_diff_conv2 nat_le_linear add_diff_cancel_right')
  with assms(1) obtain zs where "xs = ys @ zs"
    by (metis append_eq_append_conv_if append_take_drop_id)
  with assms(1) have "s = zs @ s'" by simp
  then show ?thesis by simp
qed

lemma ms_head_decomp:
  assumes "ms r (b, s, c) = (b', s', c') # sts"
  shows "take (length s - length s') s @ s' = s" and "length s' + minlen r \<le> length s"
proof -
  have "(b', s', c') \<in> set (ms r (b, s, c))" using assms by simp
  from ms_bounds[OF this] have e: "rev b' @ s' = rev b @ s" and l: "length s' + minlen r \<le> length s"
    by simp_all
  from l have "length s' \<le> length s" by simp
  from suffix_take[OF e this] show "take (length s - length s') s @ s' = s" .
  from l show "length s' + minlen r \<le> length s" .
qed

lemma leftmost_decomp:
  "leftmost r b s = Some (skip, m, c, rest) \<Longrightarrow> s = skip @ m @ rest \<and> minlen r \<le> length m"
proof (induction s arbitrary: b skip)
  case Nil
  then show ?case
    by (auto split: list.splits dest!: ms_head_decomp(2))
next
  case (Cons x xs)
  show ?case
  proof (cases "ms r (b, x # xs, \<lambda>_. [])")
    case Nil
    with Cons.prems obtain skip' where s: "skip = x # skip'"
      and l: "leftmost r (x # b) xs = Some (skip', m, c, rest)"
      by auto
    from Cons.IH[OF l] s show ?thesis by simp
  next
    case (Cons st sts)
    obtain b' s' c' where st: "st = (b', s', c')" by (cases st)
    from Cons st Cons.prems have e: "skip = []" "m = take (length (x # xs) - length s') (x # xs)" "rest = s'"
      by auto
    from ms_head_decomp[OF Cons[unfolded st]]
    have d: "take (length (x # xs) - length s') (x # xs) @ s' = x # xs"
      and l: "length s' + minlen r \<le> length (x # xs)" by simp_all
    from d e have "x # xs = skip @ m @ rest" by simp
    moreover from l e have "minlen r \<le> length m" by simp
    ultimately show ?thesis by simp
  qed
qed


text \<open>
  The functions of \<open>regexp\<close> that the converter calls. Every pattern of the converter
  consumes at least one character, so the special treatment Go gives to empty matches is
  never reached; the model stops at an empty match instead of reproducing it.
  \<open>Split2 r s\<close> is \<open>r.Split(s, 2)\<close>: the text before and the text after the leftmost
  match, or \<open>s\<close> alone when there is none. \<open>FindStringSubmatch\<close> returns \<open>None\<close> for Go's
  \<open>nil\<close>, and the whole match as group 0.
\<close>

definition MatchString :: "regexp \<Rightarrow> string \<Rightarrow> bool" where
  "MatchString r s = (leftmost r [] s \<noteq> None)"

definition FindString :: "regexp \<Rightarrow> string \<Rightarrow> string" where
  "FindString r s = (case leftmost r [] s of None \<Rightarrow> [] | Some (skip, m, c, rest) \<Rightarrow> m)"

definition FindStringSubmatch :: "regexp \<Rightarrow> string \<Rightarrow> captures option" where
  "FindStringSubmatch r s =
     (case leftmost r [] s of None \<Rightarrow> None | Some (skip, m, c, rest) \<Rightarrow> Some (c(0 := m)))"

definition Split2 :: "regexp \<Rightarrow> string \<Rightarrow> string list" where
  "Split2 r s =
     (case leftmost r [] s of
        None \<Rightarrow> [s]
      | Some (skip, m, c, rest) \<Rightarrow> if m = [] then [s] else [skip, rest])"

text \<open>
  \<open>replaceAll r repl b s\<close> replaces every match of \<open>r\<close> in \<open>s\<close>, from left to right and
  without overlap, by what \<open>repl\<close> makes of its submatches; \<open>b\<close> is the reversed text before
  \<open>s\<close>, which the anchors look at. \<open>replaceAllW\<close> is the same loop for a replacement
  function that has effects.
\<close>

function replaceAll :: "regexp \<Rightarrow> (captures \<Rightarrow> string) \<Rightarrow> string \<Rightarrow> string \<Rightarrow> string" where
  "replaceAll r repl b s =
     (case leftmost r b s of
        None \<Rightarrow> s
      | Some (skip, m, c, rest) \<Rightarrow>
          if m = [] then s
          else skip @ repl (c(0 := m)) @ replaceAll r repl (rev m @ rev skip @ b) rest)"
  by pat_completeness auto
termination
proof (relation "measure (\<lambda>(r, repl, b, s). length s)", goal_cases)
  case (2 r repl b s x2 skip y m z c rest)
  then have "leftmost r b s = Some (skip, m, c, rest)" by simp
  from leftmost_decomp[OF this] 2(5) show ?case by simp
qed simp

declare replaceAll.simps [simp del]

function replaceAllW ::
  "regexp \<Rightarrow> (captures \<Rightarrow> world \<Rightarrow> string \<times> world) \<Rightarrow> string \<Rightarrow> string \<Rightarrow> world \<Rightarrow> string \<times> world" where
  "replaceAllW r repl b s w =
     (case leftmost r b s of
        None \<Rightarrow> (s, w)
      | Some (skip, m, c, rest) \<Rightarrow>
          if m = [] then (s, w)
          else (case repl (c(0 := m)) w of
                  (new, w') \<Rightarrow>
                    (case replaceAllW r repl (rev m @ rev skip @ b) rest w' of
                       (out, w'') \<Rightarrow> (skip @ new @ out, w''))))"
  by pat_completeness auto
termination
proof (relation "measure (\<lambda>(r, repl, b, s, w). length s)", goal_cases)
  case (2 r repl b s w x2 skip y m z c rest x y')
  then have "leftmost r b s = Some (skip, m, c, rest)" by simp
  from leftmost_decomp[OF this] 2(5) show ?case by simp
qed simp

declare replaceAllW.simps [simp del]

text \<open>
  A replacement template, parsed: \<open>`$1`\<close> is \<open>[TLit ''`'', TGroup 1, TLit ''`'']\<close>. In the
  templates of the converter a group reference is a single digit followed by a character
  that cannot continue a group name, or by the end of the template.
\<close>

datatype tpart = TLit string | TGroup nat

fun expand :: "tpart list \<Rightarrow> captures \<Rightarrow> string" where
  "expand [] c = []"
| "expand (TLit l # ts) c = l @ expand ts c"
| "expand (TGroup n # ts) c = c n @ expand ts c"

definition ReplaceAllString :: "regexp \<Rightarrow> string \<Rightarrow> tpart list \<Rightarrow> string" where
  "ReplaceAllString r src tpl = replaceAll r (expand tpl) [] src"

definition ReplaceAllStringFunc :: "regexp \<Rightarrow> string \<Rightarrow> (string \<Rightarrow> string) \<Rightarrow> string" where
  "ReplaceAllStringFunc r src f = replaceAll r (\<lambda>c. f (c 0)) [] src"

definition ReplaceAllStringFuncW ::
  "regexp \<Rightarrow> string \<Rightarrow> (string \<Rightarrow> world \<Rightarrow> string \<times> world) \<Rightarrow> world \<Rightarrow> string \<times> world" where
  "ReplaceAllStringFuncW r src f w = replaceAllW r (\<lambda>c. f (c 0)) [] src w"

section \<open>Go's strings package\<close>

text \<open>
  \<open>strings.TrimSpace\<close> removes the leading and trailing runes for which \<open>unicode.IsSpace\<close>
  holds. \<open>unicodeSpaces\<close> lists their UTF-8 encodings: the six ASCII ones, U+0085, U+00A0,
  U+1680, U+2000 to U+200A, U+2028, U+2029, U+202F, U+205F and U+3000. Each multi-byte
  encoding starts with its only lead byte, so a text ends with such a rune exactly when it
  ends with these bytes.
\<close>

definition unicodeSpaces :: "string list" where
  "unicodeSpaces =
     [[CHR 0x09], [CHR 0x0A], [CHR 0x0B], [CHR 0x0C], [CHR 0x0D], [CHR 0x20],
      [CHR 0xC2, CHR 0x85], [CHR 0xC2, CHR 0xA0],
      [CHR 0xE1, CHR 0x9A, CHR 0x80],
      [CHR 0xE2, CHR 0x80, CHR 0x80], [CHR 0xE2, CHR 0x80, CHR 0x81],
      [CHR 0xE2, CHR 0x80, CHR 0x82], [CHR 0xE2, CHR 0x80, CHR 0x83],
      [CHR 0xE2, CHR 0x80, CHR 0x84], [CHR 0xE2, CHR 0x80, CHR 0x85],
      [CHR 0xE2, CHR 0x80, CHR 0x86], [CHR 0xE2, CHR 0x80, CHR 0x87],
      [CHR 0xE2, CHR 0x80, CHR 0x88], [CHR 0xE2, CHR 0x80, CHR 0x89],
      [CHR 0xE2, CHR 0x80, CHR 0x8A],
      [CHR 0xE2, CHR 0x80, CHR 0xA8], [CHR 0xE2, CHR 0x80, CHR 0xA9],
      [CHR 0xE2, CHR 0x80, CHR 0xAF],
      [CHR 0xE2, CHR 0x81, CHR 0x9F],
      [CHR 0xE3, CHR 0x80, CHR 0x80]]"

lemma unicodeSpaces_nonempty: "w \<in> set unicodeSpaces \<Longrightarrow> w \<noteq> []"
  by (auto simp: unicodeSpaces_def)

function trimLeftSpace :: "string \<Rightarrow> string" where
  "trimLeftSpace s =
     (case find (\<lambda>w. prefix w s) unicodeSpaces of
        Some w \<Rightarrow> trimLeftSpace (drop (length w) s)
      | None \<Rightarrow> s)"
  by pat_completeness auto
termination
proof (relation "measure length", goal_cases)
  case (2 s w)
  then have "w \<in> set unicodeSpaces" and "prefix w s"
    by (auto simp: find_Some_iff)
  with unicodeSpaces_nonempty[of w] show ?case
    by (cases s) (auto simp: prefix_def)
qed simp

declare trimLeftSpace.simps [simp del]

function trimRightSpace :: "string \<Rightarrow> string" where
  "trimRightSpace s =
     (case find (\<lambda>w. suffix w s) unicodeSpaces of
        Some w \<Rightarrow> trimRightSpace (take (length s - length w) s)
      | None \<Rightarrow> s)"
  by pat_completeness auto
termination
proof (relation "measure length", goal_cases)
  case (2 s w)
  then have "w \<in> set unicodeSpaces" and "suffix w s"
    by (auto simp: find_Some_iff)
  with unicodeSpaces_nonempty[of w] show ?case
    by (cases s) (auto simp: suffix_def)
qed simp

declare trimRightSpace.simps [simp del]

definition TrimSpace :: "string \<Rightarrow> string" where
  "TrimSpace s = trimRightSpace (trimLeftSpace s)"

section \<open>Code blocks (markdown/codeBlock.go)\<close>

text \<open>
  Code blocks are disguised between the two sentinels below, so that the conversions for
  text outside code blocks leave their contents alone.
\<close>

definition disguiseOpen :: string where
  "disguiseOpen = [CHR ''{'', CHR ''@'', CHR ''{'', CHR ''@'', CHR ''{'']"

definition disguiseClose :: string where
  "disguiseClose = ''}@}@}''"

text \<open>\<open>codeBlockBoundaryRegexp\<close> is \<open>{{{|}}}\<close>; \<open>tracProcessorRegexp\<close> is \<open>^\s*#!(\w[^\n]*)?\<close>.\<close>

definition codeBlockBoundaryRegexp :: regexp where
  "codeBlockBoundaryRegexp = Alt (Lit ''{{{'') (Lit ''}}}'')"

definition tracProcessorRegexp :: regexp where
  "tracProcessorRegexp =
     Seq BeginText (Seq (Star (Cls isPerlSpace)) (Seq (Lit ''#!'')
       (Opt (Cap 1 (Seq (Cls isWord) (Star (Cls (\<lambda>c. c \<noteq> newline))))))))"

definition htmlTags :: "string list" where
  "htmlTags = [''div'', ''td'', ''th'', ''tr'', ''table'']"

definition codeLangs :: "string list" where
  "codeLangs = [''c'', ''c++'', ''ps1'', ''php'', ''py'', ''sh'', ''cpp'', ''pl'']"

definition langMap :: "string \<rightharpoonup> string" where
  "langMap = [''c++'' \<mapsto> ''cpp'']"

text \<open>
  The body of \<open>parseCodeBlocks\<close> is modelled in four parts. \<open>tracProcessorOf\<close> is the
  search for a processor after an opening (\<open>match[1]\<close> and the text after the directive).
  \<open>openBoundary\<close> is the rest of the branch for \<open>{{{\<close>: it returns \<open>convertedBoundary\<close> and
  \<open>blockType\<close>, each \<open>let\<close> standing for one assignment of the source, in its order. The
  loop over \<open>codeLangs\<close> has no \<open>break\<close> and is a fold; the loop over \<open>htmlTags\<close> stops at the
  first tag that is a prefix. \<open>closeBoundary\<close> is the branch for \<open>}}}\<close> inside a block.
\<close>

definition tracProcessorOf :: "string \<Rightarrow> string \<times> string" where
  "tracProcessorOf afterBoundary =
     (case FindStringSubmatch tracProcessorRegexp afterBoundary of
        Some match \<Rightarrow> (match 1, Split2 tracProcessorRegexp afterBoundary ! 1)
      | None \<Rightarrow> ([], afterBoundary))"

definition openBoundary :: "string \<Rightarrow> string \<times> string" where
  "openBoundary tracProcessor0 =
     (let convertedBoundary = disguiseOpen;
          blockType = [];
          tracProcessor =
            (if prefix ''CommitTicketReference'' tracProcessor0 then [] else tracProcessor0);
          convertedBoundary =
            (if tracProcessor \<noteq> [] then convertedBoundary @ ''#!'' @ tracProcessor
             else convertedBoundary);
          convertedBoundary =
            foldl (\<lambda>cb codeLang.
                     if TrimSpace tracProcessor = codeLang
                     then disguiseOpen @ (case langMap codeLang of
                                            Some fixedLang \<Rightarrow> fixedLang
                                          | None \<Rightarrow> codeLang)
                     else cb)
                  convertedBoundary codeLangs;
          (blockType, convertedBoundary) =
            (case find (\<lambda>tag. prefix tag tracProcessor) htmlTags of
               Some tag \<Rightarrow> (tag, ''<'' @ tracProcessor @ ''>'' @ [newline])
             | None \<Rightarrow> (blockType, convertedBoundary));
          (blockType, convertedBoundary) =
            (if prefix ''comment'' tracProcessor \<or> prefix ''htmlcomment'' tracProcessor
             then (''comment'', ''<!---'')
             else (blockType, convertedBoundary));
          (blockType, convertedBoundary) =
            (if prefix ''html'' tracProcessor then (''html'', [])
             else (blockType, convertedBoundary))
      in (convertedBoundary, blockType))"

definition closeBoundary :: "string \<Rightarrow> string" where
  "closeBoundary blockType =
     (let convertedBoundary = disguiseClose;
          convertedBoundary =
            foldl (\<lambda>cb tag. if blockType = tag then [newline] @ ''</'' @ tag @ ''>'' else cb)
                  convertedBoundary htmlTags;
          convertedBoundary = (if blockType = ''comment'' then ''-->'' else convertedBoundary);
          convertedBoundary = (if blockType = ''html'' then [] else convertedBoundary)
      in convertedBoundary)"

lemma boundary_after_shorter:
  assumes "MatchString codeBlockBoundaryRegexp inp"
  shows "length (Split2 codeBlockBoundaryRegexp inp ! 1) < length inp"
proof -
  from assms obtain skip m c rest
    where l: "leftmost codeBlockBoundaryRegexp [] inp = Some (skip, m, c, rest)"
    by (auto simp: MatchString_def)
  from leftmost_decomp[OF l] have "inp = skip @ m @ rest" and "3 \<le> length m"
    by (simp_all add: codeBlockBoundaryRegexp_def)
  with l show ?thesis by (auto simp: Split2_def)
qed

lemma tracProcessorOf_not_longer:
  assumes "tracProcessorOf afterBoundary = (tracProcessor, afterBoundary')"
  shows "length afterBoundary' \<le> length afterBoundary"
proof (cases "leftmost tracProcessorRegexp [] afterBoundary")
  case None
  with assms show ?thesis by (simp add: tracProcessorOf_def FindStringSubmatch_def)
next
  case (Some a)
  obtain skip m c rest where a: "a = (skip, m, c, rest)" by (cases a)
  from leftmost_decomp[OF Some[unfolded a]]
  have "afterBoundary = skip @ m @ rest" and "2 \<le> length m"
    by (simp_all add: tracProcessorRegexp_def)
  with assms Some a show ?thesis
    by (auto simp: tracProcessorOf_def FindStringSubmatch_def Split2_def)
qed

text \<open>
  \<open>parseCodeBlocks\<close> receives the remaining text and the list of the blocks that are open.
  The three calls \<open>MatchString\<close>, \<open>Split\<close> and \<open>FindString\<close> of the source look for the same
  leftmost boundary. The source tests for \<open>{{{\<close> and for \<open>}}}\<close> in two consecutive \<open>if\<close>s
  and then returns; the last branch below is what it does when neither holds.
  \<open>accumulated\<close> is only read before the recursive call, so the sharing of the slices'
  backing array is not observable and the slices are lists.
\<close>

function (domintros) parseCodeBlocks :: "string \<Rightarrow> string list \<Rightarrow> world \<Rightarrow> string \<times> world" where
  "parseCodeBlocks inp accumulated w =
     (if \<not> MatchString codeBlockBoundaryRegexp inp then
        (inp,
         if length accumulated > 0
         then w @ [LogError ''Parsing issue during markdown conversion of code blocks. Some opening triple brackets are not closed.'']
         else w)
      else
        let surroundings = Split2 codeBlockBoundaryRegexp inp;
            beforeBoundary = surroundings ! 0;
            afterBoundary = surroundings ! 1
        in
          if FindString codeBlockBoundaryRegexp inp = ''{{{'' then
            (case tracProcessorOf afterBoundary of
               (tracProcessor, afterBoundary') \<Rightarrow>
                 (case openBoundary tracProcessor of
                    (convertedBoundary, blockType) \<Rightarrow>
                      (case parseCodeBlocks afterBoundary' (accumulated @ [blockType]) w of
                         (out, w') \<Rightarrow> (beforeBoundary @ convertedBoundary @ out, w'))))
          else if FindString codeBlockBoundaryRegexp inp = ''}}}'' then
            (if length accumulated = 0 then
               (case parseCodeBlocks afterBoundary accumulated w of
                  (out, w') \<Rightarrow> (beforeBoundary @ ''}}}'' @ out, w'))
             else
               (case parseCodeBlocks afterBoundary (butlast accumulated) w of
                  (out, w') \<Rightarrow> (beforeBoundary @ closeBoundary (last accumulated) @ out, w')))
          else
            (case parseCodeBlocks afterBoundary accumulated w of
               (out, w') \<Rightarrow> (beforeBoundary @ out, w')))"
  by pat_completeness auto
termination
proof (relation "measure (\<lambda>(inp, accumulated, w). length inp)", goal_cases)
  case 1
  show ?case by simp
next
  case (2 inp accumulated w surroundings beforeBoundary afterBoundary tracProcessor afterBoundary')
  from boundary_after_shorter[of inp]
       tracProcessorOf_not_longer[of afterBoundary tracProcessor afterBoundary'] 2
  show ?case by simp
next
  case 3
  with boundary_after_shorter show ?case by simp
next
  case 4
  with boundary_after_shorter show ?case by simp
next
  case 5
  with boundary_after_shorter show ?case by simp
qed

declare parseCodeBlocks.simps [simp del]

definition convertCodeBlocks :: "string \<Rightarrow> world \<Rightarrow> string \<times> world" where
  "convertCodeBlocks inp w = parseCodeBlocks inp [] w"

section \<open>Collaborators\<close>

text \<open>
  The converter reads the Trac database and the Gitea repository through two accessors,
  \<open>trac.Accessor\<close> and \<open>gitea.Accessor\<close>. Their implementations are outside the
  converter; the records below hold the methods the converter calls. A method that returns
  a value and an \<open>error\<close> gives \<open>None\<close> for an error. The only call with an effect,
  \<open>CopyFileToWiki\<close>, is recorded in the \<open>world\<close> by the converter. The constants
  \<open>trac.NullID\<close> and \<open>gitea.NullID\<close> and the conversions of \<open>DefaultConverter\<close> for the
  constructs other than code blocks and links (anchors, escapes, lists, headings, font
  styles, block quotes, tables, paragraphs, ends of line) are declared in files that are not
  among the sources at hand, so they are fields of the converter as well.
\<close>

record TracAccessor =
  GetFullPath :: "string list \<Rightarrow> string"
  GetTicketCommentTime :: "int \<Rightarrow> int \<Rightarrow> int option"

record GiteaAccessor =
  GetWikiHtdocRelPath :: "string \<Rightarrow> string"
  GetWikiFileURL :: "string \<Rightarrow> string"
  GetIssueID :: "int \<Rightarrow> int option"
  GetIssueCommentIDsByTime :: "int \<Rightarrow> int \<Rightarrow> int list option"
  GetIssueCommentURL :: "int \<Rightarrow> int \<Rightarrow> string"
  GetMilestoneID :: "string \<Rightarrow> int option"
  GetMilestoneURL :: "int \<Rightarrow> string"
  GetIssueAttachmentUUID :: "int \<Rightarrow> string \<Rightarrow> string option"
  GetIssueAttachmentURL :: "int \<Rightarrow> string \<Rightarrow> string"
  GetWikiAttachmentRelPath :: "string \<Rightarrow> string \<Rightarrow> string"
  GetCommitURL :: "string \<Rightarrow> string"
  GetSourceURL :: "string \<Rightarrow> string \<Rightarrow> string"
  GetIssueURL :: "int \<Rightarrow> string"
  TranslateWikiPageName :: "string \<Rightarrow> string"

record DefaultConverter =
  tracAccessor :: TracAccessor
  giteaAccessor :: GiteaAccessor
  tracNullID :: int
  giteaNullID :: int
  convertEOL :: "string \<Rightarrow> string"
  convertAnchors :: "string \<Rightarrow> string"
  convertEscapes :: "string \<Rightarrow> string"
  convertLists :: "string \<Rightarrow> string"
  convertDefinitionLists :: "string \<Rightarrow> string"
  convertHeadings :: "string \<Rightarrow> string"
  convertFontStyles :: "string \<Rightarrow> string"
  convertBlockQuotes :: "string \<Rightarrow> string"
  convertTables :: "string \<Rightarrow> string"
  convertParagraphs :: "string \<Rightarrow> string"

section \<open>Go's strconv and strings, continued\<close>

text \<open>
  \<open>strconv.ParseInt(s, 10, 64)\<close>: an optional sign and at least one decimal digit, with a
  value that fits in 64 bits; \<open>None\<close> stands for either error.
\<close>

definition ParseInt :: "string \<Rightarrow> int option" where
  "ParseInt s =
     (let neg = (s \<noteq> [] \<and> hd s = CHR ''-'');
          ds = (if s \<noteq> [] \<and> (hd s = CHR ''+'' \<or> hd s = CHR ''-'') then tl s else s);
          un = foldl (\<lambda>n c. 10 * n + (of_char c - 48)) (0::int) ds
      in if ds = [] \<or> \<not> list_all isDigit ds then None
         else if neg then (if un \<le> 9223372036854775808 then Some (- un) else None)
         else (if un < 9223372036854775808 then Some un else None))"

text \<open>
  \<open>strings.EqualFold\<close> compares under Unicode case folding. The converter calls it with
  the constant \<open>br\<close> only, and no rune outside ASCII folds to \<open>b\<close> or \<open>r\<close>, so folding the
  ASCII letters decides the same.
\<close>

definition asciiLower :: "char \<Rightarrow> char" where
  "asciiLower c = (if isUpper c then char_of (of_char c + (32::nat)) else c)"

definition EqualFold :: "string \<Rightarrow> string \<Rightarrow> bool" where
  "EqualFold s t = (map asciiLower s = map asciiLower t)"

text \<open>\<open>strings.ReplaceAll(s, old, new)\<close> for a non-empty \<open>old\<close>.\<close>

definition ReplaceAll :: "string \<Rightarrow> string \<Rightarrow> string \<Rightarrow> string" where
  "ReplaceAll s old new = replaceAll (Lit old) (\<lambda>c. new) [] s"

section \<open>Links (markdown/link.go)\<close>

text \<open>
  The character classes of the link patterns. \<open>urlChars\<close> is
  \<open>\-._~:/?#@!$&'"()*+,;%=\<close>; the other classes are written out in the patterns.
\<close>

definition urlChars :: string where
  "urlChars = ''-._~:/?#@!$&()*+,;%='' @ [CHR 0x27, CHR 0x22]"

definition isUrlChar :: "char \<Rightarrow> bool" where
  "isUrlChar c = (isAlnum c \<or> c \<in> set urlChars)"

definition zeroWidthSpace :: string where
  "zeroWidthSpace = [CHR 0xE2, CHR 0x80, CHR 0x8B]"

text \<open>
  \<open>\[\[Image\(([^,)]+)(?:, *link=([[:alnum:]\-._~:/?#@!$&'"(*+;%=]+))?[^\]]*\]\]\<close>
\<close>

definition doubleBracketImageLinkRegexp :: regexp where
  "doubleBracketImageLinkRegexp =
     Seq (Lit ''[[Image('')
    (Seq (Cap 1 (Plus (Cls (\<lambda>c. c \<noteq> CHR '','' \<and> c \<noteq> CHR '')''))))
    (Seq (Opt (Seq (Lit '','') (Seq (Star (Cls (\<lambda>c. c = CHR '' ''))) (Seq (Lit ''link='')
            (Cap 2 (Plus (Cls (\<lambda>c. isAlnum c
                 \<or> c \<in> set (''-._~:/?#@!$&(*+;%='' @ [CHR 0x27, CHR 0x22])))))))))
    (Seq (Star (Cls (\<lambda>c. c \<noteq> CHR '']''))) (Lit '']]''))))"

text \<open>\<open>\[\[([[:alpha:]][^|\]]*)(?:\|([^\]]+))?\]\]\<close>\<close>

definition doubleBracketLinkRegexp :: regexp where
  "doubleBracketLinkRegexp =
     Seq (Lit ''[['')
    (Seq (Cap 1 (Seq (Cls isAlpha) (Star (Cls (\<lambda>c. c \<noteq> CHR ''|'' \<and> c \<noteq> CHR '']'')))))
    (Seq (Opt (Seq (Lit ''|'') (Cap 2 (Plus (Cls (\<lambda>c. c \<noteq> CHR '']''))))))
         (Lit '']]'')))"

text \<open>\<open>\[([[:alpha:]][^ \]]*)(?: +([^\]]+))?\]\<close>\<close>

definition singleBracketLinkRegexp :: regexp where
  "singleBracketLinkRegexp =
     Seq (Lit ''['')
    (Seq (Cap 1 (Seq (Cls isAlpha) (Star (Cls (\<lambda>c. c \<noteq> CHR '' '' \<and> c \<noteq> CHR '']'')))))
    (Seq (Opt (Seq (Plus (Cls (\<lambda>c. c = CHR '' ''))) (Cap 2 (Plus (Cls (\<lambda>c. c \<noteq> CHR '']''))))))
         (Lit '']'')))"

text \<open>\<open>https?://[[:alnum:]\-._~:/?#@!$&'"()*+,;%=]*[[:alnum:]]\<close>\<close>

definition httpLinkRegexp :: regexp where
  "httpLinkRegexp =
     Seq (Lit ''http'') (Seq (Opt (Lit ''s'')) (Seq (Lit ''://'')
       (Seq (Star (Cls isUrlChar)) (Cls isAlnum))))"

text \<open>\<open>htdocs:([[:alnum:]\-._~:/?#@!$&'"()*+,;%=]+)\<close>\<close>

definition htdocsLinkRegexp :: regexp where
  "htdocsLinkRegexp = Seq (Lit ''htdocs:'') (Cap 1 (Plus (Cls isUrlChar)))"

text \<open>
  \<open>^[[:alnum:]-._,]+\.[[:alpha:]]+$\<close>, compiled without the flag \<open>m\<close>: \<open>^\<close> and \<open>$\<close> are the
  two ends of the text.
\<close>

definition localFileLinkRegexp :: regexp where
  "localFileLinkRegexp =
     Seq BeginText (Seq (Plus (Cls (\<lambda>c. isAlnum c \<or> c \<in> set ''-._,'')))
       (Seq (Lit ''.'') (Seq (Plus (Cls isAlpha)) EndText)))"

text \<open>\<open>comment:([[:digit:]]+)(?::ticket:([[:digit:]]+))?\<close>\<close>

definition ticketCommentLinkRegexp :: regexp where
  "ticketCommentLinkRegexp =
     Seq (Lit ''comment:'') (Seq (Cap 1 (Plus (Cls isDigit)))
       (Opt (Seq (Lit '':ticket:'') (Cap 2 (Plus (Cls isDigit))))))"

text \<open>\<open>milestone:([[:alnum:]\-._~:/?#@!$&'"()*+,;%=]+)\<close>\<close>

definition milestoneLinkRegexp :: regexp where
  "milestoneLinkRegexp = Seq (Lit ''milestone:'') (Cap 1 (Plus (Cls isUrlChar)))"

text \<open>
  \<open>attachment:([[:alnum:]\-._~/?#@!$&'"()*+,;%=]+)\<close> followed by
  \<open>(?:(?::wiki:((?:[[:upper:]][[:lower:]]*)+))|(?::ticket:([[:digit:]]+)))?\<close>
\<close>

definition attachmentLinkRegexp :: regexp where
  "attachmentLinkRegexp =
     Seq (Lit ''attachment:'')
    (Seq (Cap 1 (Plus (Cls (\<lambda>c. isAlnum c
            \<or> c \<in> set (''-._~/?#@!$&()*+,;%='' @ [CHR 0x27, CHR 0x22])))))
         (Opt (Alt (Seq (Lit '':wiki:'') (Cap 2 (Plus (Seq (Cls isUpper) (Star (Cls isLower))))))
                   (Seq (Lit '':ticket:'') (Cap 3 (Plus (Cls isDigit)))))))"

text \<open>\<open>changeset:"([[:xdigit:]]+)/[^"]+"\<close>\<close>

definition changesetLinkRegexp :: regexp where
  "changesetLinkRegexp =
     Seq (Lit (''changeset:'' @ [CHR 0x22])) (Seq (Cap 1 (Plus (Cls isXdigit)))
       (Seq (Lit ''/'') (Seq (Plus (Cls (\<lambda>c. c \<noteq> CHR 0x22))) (Lit [CHR 0x22]))))"

text \<open>\<open>source:"[^/]+/([^"]+)"\<close>\<close>

definition sourceLinkRegexp :: regexp where
  "sourceLinkRegexp =
     Seq (Lit (''source:'' @ [CHR 0x22])) (Seq (Plus (Cls (\<lambda>c. c \<noteq> CHR ''/'')))
       (Seq (Lit ''/'') (Seq (Cap 1 (Plus (Cls (\<lambda>c. c \<noteq> CHR 0x22)))) (Lit [CHR 0x22]))))"

text \<open>\<open>ticket:([[:digit:]]+)\<close>\<close>

definition ticketLinkRegexp :: regexp where
  "ticketLinkRegexp = Seq (Lit ''ticket:'') (Cap 1 (Plus (Cls isDigit)))"

text \<open>\<open>wiki:([[:alnum:]:\-._&']*[[:alnum:]])(?:#([[:alnum:]?/:@\-._\~!$&'*+,;=]+))?\<close>\<close>

definition wikiLinkRegexp :: regexp where
  "wikiLinkRegexp =
     Seq (Lit ''wiki:'')
    (Seq (Cap 1 (Seq (Star (Cls (\<lambda>c. isAlnum c \<or> c \<in> set ('':-._&'' @ [CHR 0x27]))))
                     (Cls isAlnum)))
         (Opt (Seq (Lit ''#'')
                   (Cap 2 (Plus (Cls (\<lambda>c. isAlnum c
                      \<or> c \<in> set (''?/:@-._~!$&*+,;='' @ [CHR 0x27]))))))))"

text \<open>
  \<open>([[:space:]\x{200B}\]]|\A)((?:[[:upper:]][[:lower:]]+){2,})\<close> followed by
  \<open>(?:#([[:alnum:]?/:@\-._\~!$&'()*+,;=]+))?\<close>. The first class holds a rune outside
  ASCII, the zero-width space, which is one alternative of its own here.
\<close>

definition wikiCamelCaseLinkRegexp :: regexp where
  "wikiCamelCaseLinkRegexp =
     Seq (Cap 1 (Alt (Alt (Cls (\<lambda>c. isPosixSpace c \<or> c = CHR '']'')) (Lit zeroWidthSpace))
                     BeginText))
    (Seq (Cap 2 (Seq (Seq (Cls isUpper) (Plus (Cls isLower)))
                (Seq (Seq (Cls isUpper) (Plus (Cls isLower)))
                     (Star (Seq (Cls isUpper) (Plus (Cls isLower)))))))
         (Opt (Seq (Lit ''#'')
                   (Cap 3 (Plus (Cls (\<lambda>c. isAlnum c
                      \<or> c \<in> set (''?/:@-._~!$&()*+,;='' @ [CHR 0x27]))))))))"

text \<open>\<open>([^\]])\(@@([^@]+)@@\)\<close> and \<open>\(@@([^@]+)@@\)\<close>\<close>

definition noTextMarkedLinkRegexp :: regexp where
  "noTextMarkedLinkRegexp =
     Seq (Cap 1 (Cls (\<lambda>c. c \<noteq> CHR '']''))) (Seq (Lit ''(@@'')
       (Seq (Cap 2 (Plus (Cls (\<lambda>c. c \<noteq> CHR ''@'')))) (Lit ''@@)'')))"

definition markedLinkRegexp :: regexp where
  "markedLinkRegexp =
     Seq (Lit ''(@@'') (Seq (Cap 1 (Plus (Cls (\<lambda>c. c \<noteq> CHR ''@'')))) (Lit ''@@)''))"

text \<open>\<open>(https?)://\<close> and \<open>(https?):@@\<close>\<close>

definition httpLinkDisguiseRegexp :: regexp where
  "httpLinkDisguiseRegexp = Seq (Cap 1 (Seq (Lit ''http'') (Opt (Lit ''s'')))) (Lit ''://'')"

definition httpLinkUndisguiseRegexp :: regexp where
  "httpLinkUndisguiseRegexp = Seq (Cap 1 (Seq (Lit ''http'') (Opt (Lit ''s'')))) (Lit '':@@'')"

subsection \<open>Link resolution functions\<close>

text \<open>
  Each function receives the text of a match of its pattern and returns the text to put in
  its place: the marked URL, or the match itself when it cannot be resolved. The fields of
  the link are read as the source reads them, by replacing the match with a group of the
  pattern.
\<close>

definition markLink :: "string \<Rightarrow> string" where
  "markLink inp = ''(@@'' @ inp @ ''@@)''"

definition resolveHTTPLink :: "DefaultConverter \<Rightarrow> string \<Rightarrow> string" where
  "resolveHTTPLink converter link = markLink link"

definition resolveHtdocsLink :: "DefaultConverter \<Rightarrow> string \<Rightarrow> world \<Rightarrow> string \<times> world" where
  "resolveHtdocsLink converter link w =
     (let htdocPath = ReplaceAllString htdocsLinkRegexp link [TGroup 1];
          tracHtdocPath = GetFullPath (tracAccessor converter) [''htdocs'', htdocPath];
          wikiHtdocRelPath = GetWikiHtdocRelPath (giteaAccessor converter) htdocPath;
          w = w @ [CopyFileToWiki tracHtdocPath wikiHtdocRelPath];
          wikiHtdocURL = GetWikiFileURL (giteaAccessor converter) wikiHtdocRelPath
      in (markLink wikiHtdocURL, w))"

definition resolveTicketCommentLink ::
  "DefaultConverter \<Rightarrow> int \<Rightarrow> string \<Rightarrow> world \<Rightarrow> string \<times> world" where
  "resolveTicketCommentLink converter ticketID link w =
     (let commentNumStr = ReplaceAllString ticketCommentLinkRegexp link [TGroup 1] in
      case ParseInt commentNumStr of
        None \<Rightarrow> (link, w @ [LogWarn ''found invalid Trac ticket comment number %s''])
      | Some commentNum \<Rightarrow>
          let commentTicketIDStr = ReplaceAllString ticketCommentLinkRegexp link [TGroup 2] in
          case (if commentTicketIDStr \<noteq> [] then
                  (case ParseInt commentTicketIDStr of
                     None \<Rightarrow> Inl ''found invalid Trac ticket id %s''
                   | Some commentTicketID \<Rightarrow> Inr commentTicketID)
                else if ticketID = tracNullID converter then
                  Inl ''found Trac reference to comment %d of unknown ticket''
                else Inr ticketID) of
            Inl warning \<Rightarrow> (link, w @ [LogWarn warning])
          | Inr commentTicketID \<Rightarrow>
              (case GetIssueID (giteaAccessor converter) commentTicketID of
                 None \<Rightarrow> (link, w)
               | Some issueID \<Rightarrow>
                   if issueID = giteaNullID converter then
                     (link, w @ [LogWarn (''cannot find Gitea issue for ticket %d referenced by Trac link ''
                                          @ [CHR 0x22] @ ''%s'' @ [CHR 0x22])])
                   else
                     (case GetTicketCommentTime (tracAccessor converter) commentTicketID commentNum of
                        None \<Rightarrow> (link, w)
                      | Some timestamp \<Rightarrow>
                          if timestamp = 0 then (link, w)
                          else
                            (case GetIssueCommentIDsByTime (giteaAccessor converter) issueID timestamp of
                               None \<Rightarrow> (link, w)
                             | Some commentIDs \<Rightarrow>
                                 if length commentIDs = 0 then (link, w)
                                 else (markLink (GetIssueCommentURL (giteaAccessor converter)
                                                   issueID (hd commentIDs)), w)))))"

definition resolveMilestoneLink :: "DefaultConverter \<Rightarrow> string \<Rightarrow> world \<Rightarrow> string \<times> world" where
  "resolveMilestoneLink converter link w =
     (let milestoneName = ReplaceAllString milestoneLinkRegexp link [TGroup 1] in
      case GetMilestoneID (giteaAccessor converter) milestoneName of
        None \<Rightarrow> (link, w)
      | Some milestoneID \<Rightarrow>
          if milestoneID = giteaNullID converter then
            (link, w @ [LogWarn (''cannot find milestone '' @ [CHR 0x22] @ ''%s'' @ [CHR 0x22]
                                 @ '' referenced by Trac link '' @ [CHR 0x22] @ ''%s'' @ [CHR 0x22])])
          else (markLink (GetMilestoneURL (giteaAccessor converter) milestoneID), w))"

definition resolveTicketAttachmentLink ::
  "DefaultConverter \<Rightarrow> int \<Rightarrow> string \<Rightarrow> string \<Rightarrow> world \<Rightarrow> string \<times> world" where
  "resolveTicketAttachmentLink converter ticketID attachmentName link w =
     (case GetIssueID (giteaAccessor converter) ticketID of
        None \<Rightarrow> (link, w)
      | Some issueID \<Rightarrow>
          if issueID = giteaNullID converter then
            (link, w @ [LogWarn (''cannot find Gitea issue for ticket %d for Trac link ''
                                 @ [CHR 0x22] @ ''%s'' @ [CHR 0x22])])
          else
            (case GetIssueAttachmentUUID (giteaAccessor converter) issueID attachmentName of
               None \<Rightarrow> (link, w)
             | Some uuid \<Rightarrow>
                 if uuid = [] then
                   (link, w @ [LogWarn (''cannot find attachment '' @ [CHR 0x22] @ ''%s'' @ [CHR 0x22]
                                        @ '' for issue %d for Trac link '' @ [CHR 0x22] @ ''%s''
                                        @ [CHR 0x22])])
                 else (markLink (GetIssueAttachmentURL (giteaAccessor converter) issueID uuid), w)))"

definition resolveWikiAttachmentLink ::
  "DefaultConverter \<Rightarrow> string \<Rightarrow> string \<Rightarrow> string \<Rightarrow> string" where
  "resolveWikiAttachmentLink converter wikiPage attachmentName link =
     (let attachmentWikiRelPath =
            GetWikiAttachmentRelPath (giteaAccessor converter) wikiPage attachmentName;
          attachmentURL = GetWikiFileURL (giteaAccessor converter) attachmentWikiRelPath
      in markLink attachmentURL)"

definition resolveAttachmentLink ::
  "DefaultConverter \<Rightarrow> int \<Rightarrow> string \<Rightarrow> string \<Rightarrow> world \<Rightarrow> string \<times> world" where
  "resolveAttachmentLink converter ticketID wikiPage link w =
     (let attachmentName = ReplaceAllString attachmentLinkRegexp link [TGroup 1];
          attachmentWikiPage = ReplaceAllString attachmentLinkRegexp link [TGroup 2];
          attachmentTicketIDStr = ReplaceAllString attachmentLinkRegexp link [TGroup 3]
      in
        if attachmentTicketIDStr \<noteq> [] then
          (case ParseInt attachmentTicketIDStr of
             None \<Rightarrow> (link, w @ [LogWarn ''found invalid Trac ticket id %s''])
           | Some attachmentTicketID \<Rightarrow>
               resolveTicketAttachmentLink converter attachmentTicketID attachmentName link w)
        else if attachmentWikiPage \<noteq> [] then
          (resolveWikiAttachmentLink converter attachmentWikiPage attachmentName link, w)
        else if ticketID \<noteq> tracNullID converter then
          resolveTicketAttachmentLink converter ticketID attachmentName link w
        else if wikiPage \<noteq> [] then
          (resolveWikiAttachmentLink converter wikiPage attachmentName link, w)
        else
          (link, w @ [LogWarn (''Trac attachment link '' @ [CHR 0x22] @ ''%s'' @ [CHR 0x22]
                               @ '' requires either ticket or wiki'')]))"

definition resolveChangesetLink :: "DefaultConverter \<Rightarrow> string \<Rightarrow> string" where
  "resolveChangesetLink converter link =
     (let changesetID = ReplaceAllString changesetLinkRegexp link [TGroup 1];
          changesetURL = GetCommitURL (giteaAccessor converter) changesetID
      in markLink changesetURL)"

definition resolveSourceLink :: "DefaultConverter \<Rightarrow> string \<Rightarrow> string" where
  "resolveSourceLink converter link =
     (let sourcePath = ReplaceAllString sourceLinkRegexp link [TGroup 1];
          sourceURL = GetSourceURL (giteaAccessor converter) ''master'' sourcePath
      in markLink sourceURL)"

definition resolveTicketLink :: "DefaultConverter \<Rightarrow> string \<Rightarrow> world \<Rightarrow> string \<times> world" where
  "resolveTicketLink converter link w =
     (let ticketIDStr = ReplaceAllString ticketLinkRegexp link [TGroup 1] in
      case ParseInt ticketIDStr of
        None \<Rightarrow> (link, w @ [LogWarn (''found invalid Trac ticket reference %s'' @ link)])
      | Some ticketID \<Rightarrow>
          (case GetIssueID (giteaAccessor converter) ticketID of
             None \<Rightarrow> (link, w)
           | Some issueID \<Rightarrow>
               if issueID = giteaNullID converter then
                 (link, w @ [LogWarn (''cannot find Gitea issue for ticket %d referenced by Trac link ''
                                      @ [CHR 0x22] @ ''%s'' @ [CHR 0x22])])
               else (markLink (GetIssueURL (giteaAccessor converter) issueID), w)))"

definition resolveWikiLink :: "DefaultConverter \<Rightarrow> string \<Rightarrow> string" where
  "resolveWikiLink converter link =
     (let wikiPageName = ReplaceAllString wikiLinkRegexp link [TGroup 1];
          wikiPageAnchor = ReplaceAllString wikiLinkRegexp link [TGroup 2];
          translatedPageName = TranslateWikiPageName (giteaAccessor converter) wikiPageName
      in if wikiPageAnchor = [] then markLink translatedPageName
         else markLink (translatedPageName @ ''#'' @ wikiPageAnchor))"

definition resolveWikiCamelCaseLink :: "DefaultConverter \<Rightarrow> string \<Rightarrow> string" where
  "resolveWikiCamelCaseLink converter link =
     (let leadingChar = ReplaceAllString wikiCamelCaseLinkRegexp link [TGroup 1];
          wikiPageName = ReplaceAllString wikiCamelCaseLinkRegexp link [TGroup 2];
          wikiPageAnchor = ReplaceAllString wikiCamelCaseLinkRegexp link [TGroup 3];
          translatedPageName = TranslateWikiPageName (giteaAccessor converter) wikiPageName
      in if wikiPageAnchor = [] then leadingChar @ markLink translatedPageName
         else leadingChar @ markLink (translatedPageName @ ''#'' @ wikiPageAnchor))"

subsection \<open>The three phases of link conversion\<close>

definition convertBrackettedTracLinks :: "DefaultConverter \<Rightarrow> string \<Rightarrow> string \<Rightarrow> string" where
  "convertBrackettedTracLinks converter wikiPage inp =
     (let out = inp;
          out = ReplaceAllStringFunc doubleBracketImageLinkRegexp out (\<lambda>match.
                  let image = ReplaceAllString doubleBracketImageLinkRegexp match [TGroup 1];
                      link = ReplaceAllString doubleBracketImageLinkRegexp match [TGroup 2];
                      image = (if MatchString localFileLinkRegexp image
                               then markLink (GetWikiAttachmentRelPath (giteaAccessor converter)
                                                wikiPage image)
                               else image)
                  in if link = [] then ''![]'' @ image @ zeroWidthSpace
                     else ''[![]'' @ image @ '']'' @ link @ zeroWidthSpace);
          out = ReplaceAllStringFunc doubleBracketLinkRegexp out (\<lambda>match.
                  let link = ReplaceAllString doubleBracketLinkRegexp match [TGroup 1];
                      text = ReplaceAllString doubleBracketLinkRegexp match [TGroup 2]
                  in if text = [] then
                       (if EqualFold link ''br'' then match else ''['' @ link @ '']'')
                     else ''['' @ link @ '' '' @ text @ '']'');
          out = ReplaceAllStringFunc singleBracketLinkRegexp out (\<lambda>match.
                  let link = ReplaceAllString singleBracketLinkRegexp match [TGroup 1];
                      text = ReplaceAllString singleBracketLinkRegexp match [TGroup 2]
                  in if text = [] then
                       (if EqualFold link ''br'' then match
                        else zeroWidthSpace @ link @ zeroWidthSpace)
                     else ''['' @ text @ '']'' @ link @ zeroWidthSpace)
      in out)"

definition convertUnbrackettedTracLinks ::
  "DefaultConverter \<Rightarrow> int \<Rightarrow> string \<Rightarrow> string \<Rightarrow> world \<Rightarrow> string \<times> world" where
  "convertUnbrackettedTracLinks converter ticketID wikiPage inp w =
     (let out = inp;
          out = ReplaceAllStringFunc httpLinkRegexp out (resolveHTTPLink converter);
          (out, w) = ReplaceAllStringFuncW htdocsLinkRegexp out (resolveHtdocsLink converter) w;
          (out, w) = ReplaceAllStringFuncW ticketCommentLinkRegexp out
                       (resolveTicketCommentLink converter ticketID) w;
          (out, w) = ReplaceAllStringFuncW milestoneLinkRegexp out (resolveMilestoneLink converter) w;
          (out, w) = ReplaceAllStringFuncW attachmentLinkRegexp out
                       (resolveAttachmentLink converter ticketID wikiPage) w;
          out = ReplaceAllStringFunc changesetLinkRegexp out (resolveChangesetLink converter);
          out = ReplaceAllStringFunc sourceLinkRegexp out (resolveSourceLink converter);
          (out, w) = ReplaceAllStringFuncW ticketLinkRegexp out (resolveTicketLink converter) w;
          out = ReplaceAllStringFunc wikiLinkRegexp out (resolveWikiLink converter);
          out = ReplaceAllStringFunc wikiCamelCaseLinkRegexp out (resolveWikiCamelCaseLink converter)
      in (out, w))"

definition unmarkLinks :: "string \<Rightarrow> string" where
  "unmarkLinks inp =
     (let out = inp;
          out = ReplaceAllStringFunc noTextMarkedLinkRegexp out (\<lambda>match.
                  let leadingChar = ReplaceAllString noTextMarkedLinkRegexp match [TGroup 1];
                      markdownURL = ReplaceAllString noTextMarkedLinkRegexp match [TGroup 2]
                  in if MatchString httpLinkRegexp markdownURL
                     then leadingChar @ ''<'' @ markdownURL @ ''>''
                     else leadingChar @ ''['' @ markdownURL @ '']'' @ ''('' @ markdownURL @ '')'');
          out = ReplaceAllStringFunc markedLinkRegexp out (\<lambda>match.
                  let markdownURL = ReplaceAllString markedLinkRegexp match [TGroup 1]
                  in ''('' @ markdownURL @ '')'');
          out = ReplaceAll out zeroWidthSpace []
      in out)"

definition convertLinks ::
  "DefaultConverter \<Rightarrow> int \<Rightarrow> string \<Rightarrow> string \<Rightarrow> world \<Rightarrow> string \<times> world" where
  "convertLinks converter ticketID wikiPage inp w =
     (let out = inp;
          out = convertBrackettedTracLinks converter wikiPage out;
          (out, w) = convertUnbrackettedTracLinks converter ticketID wikiPage out w;
          out = unmarkLinks out
      in (out, w))"

definition disguiseLinks :: "string \<Rightarrow> string" where
  "disguiseLinks inp = ReplaceAllString httpLinkDisguiseRegexp inp [TGroup 1, TLit '':@@'']"

definition undisguiseLinks :: "string \<Rightarrow> string" where
  "undisguiseLinks inp = ReplaceAllString httpLinkUndisguiseRegexp inp [TGroup 1, TLit ''://'']"

section \<open>The converter (markdown/defaultConverter.go, markdown/toc.go)\<close>

text \<open>\<open>tocRegexp\<close> is \<open>\[\[TOC\]\]\n+\<close>.\<close>

definition tocRegexp :: regexp where
  "tocRegexp = Seq (Lit ''[[TOC]]'') (Plus (Cls (\<lambda>c. c = newline)))"

definition removeTOC :: "string \<Rightarrow> string" where
  "removeTOC inp = ReplaceAllString tocRegexp inp []"

text \<open>
  \<open>nonCodeBlockRegexp\<close> is \<open>(?m)(?:C$|\A)(?s)(.+?)(?:^O|\z)\<close>, where \<open>O\<close> and \<open>C\<close> stand for
  the opening and the closing sentinel of a disguised code block; under the flag \<open>s\<close> the
  dot matches every character. \<open>singleLineCodeBlockRegexp\<close> is \<open>O([^\n]+?)C\<close>.
\<close>

definition nonCodeBlockRegexp :: regexp where
  "nonCodeBlockRegexp =
     Seq (Alt (Seq (Lit disguiseClose) EndLine) BeginText)
    (Seq (Cap 1 (PlusLazy (Cls (\<lambda>c. True))))
         (Alt (Seq BeginLine (Lit disguiseOpen)) EndText))"

definition singleLineCodeBlockRegexp :: regexp where
  "singleLineCodeBlockRegexp =
     Seq (Lit disguiseOpen) (Seq (Cap 1 (PlusLazy (Cls (\<lambda>c. c \<noteq> newline)))) (Lit disguiseClose))"

definition undisguiseCodeBlocks :: "string \<Rightarrow> string" where
  "undisguiseCodeBlocks inp =
     (let out = ReplaceAllString singleLineCodeBlockRegexp inp [TLit [CHR 0x60], TGroup 1, TLit [CHR 0x60]];
          out = ReplaceAll out disguiseOpen [CHR 0x60, CHR 0x60, CHR 0x60];
          out = ReplaceAll out disguiseClose [CHR 0x60, CHR 0x60, CHR 0x60]
      in out)"

definition convertNonCodeBlocks ::
  "string \<Rightarrow> (string \<Rightarrow> world \<Rightarrow> string \<times> world) \<Rightarrow> world \<Rightarrow> string \<times> world" where
  "convertNonCodeBlocks inp convertFn w = ReplaceAllStringFuncW nonCodeBlockRegexp inp convertFn w"

definition convertNonCodeBlockText ::
  "DefaultConverter \<Rightarrow> int \<Rightarrow> string \<Rightarrow> string \<Rightarrow> world \<Rightarrow> string \<times> world" where
  "convertNonCodeBlockText converter ticketID wikiPage inp w =
     (let out = inp;
          out = removeTOC out;
          (out, w) = convertLinks converter ticketID wikiPage out w;
          out = convertAnchors converter out;
          out = convertEscapes converter out;
          out = convertLists converter out;
          out = convertDefinitionLists converter out;
          out = convertHeadings converter out;
          out = disguiseLinks out;
          out = convertFontStyles converter out;
          out = undisguiseLinks out;
          out = convertBlockQuotes converter out;
          out = convertTables converter out;
          out = convertParagraphs converter out
      in (out, w))"

definition convert ::
  "DefaultConverter \<Rightarrow> int \<Rightarrow> string \<Rightarrow> string \<Rightarrow> world \<Rightarrow> string \<times> world" where
  "convert converter ticketID wikiPage inp w =
     (let out = inp;
          out = convertEOL converter out;
          (out, w) = convertCodeBlocks out w;
          (out, w) = convertNonCodeBlocks out
                       (\<lambda>inp. convertNonCodeBlockText converter ticketID wikiPage inp) w;
          out = undisguiseCodeBlocks out
      in (out, w))"

definition TicketConvert :: "DefaultConverter \<Rightarrow> int \<Rightarrow> string \<Rightarrow> world \<Rightarrow> string \<times> world" where
  "TicketConvert converter ticketID inp w = convert converter ticketID [] inp w"

definition WikiConvert :: "DefaultConverter \<Rightarrow> string \<Rightarrow> string \<Rightarrow> world \<Rightarrow> string \<times> world" where
  "WikiConvert converter wikiPage inp w = convert converter (tracNullID converter) wikiPage inp w"

section \<open>A converter for the examples\<close>

text \<open>
  The examples below run the converter with these collaborators: ticket 5 is issue 50,
  no other ticket has an issue, no comment, milestone or attachment is found, page names
  are kept, and the conversions outside code blocks and links do nothing.
\<close>

definition exTrac :: TracAccessor where
  "exTrac = \<lparr> GetFullPath = concat, GetTicketCommentTime = (\<lambda>t n. Some 0) \<rparr>"

definition exGitea :: GiteaAccessor where
  "exGitea = \<lparr> GetWikiHtdocRelPath = id,
     GetWikiFileURL = id,
     GetIssueID = (\<lambda>t. if t = 5 then Some 50 else Some (-1)),
     GetIssueCommentIDsByTime = (\<lambda>i t. Some []),
     GetIssueCommentURL = (\<lambda>i c. ''comment''),
     GetMilestoneID = (\<lambda>n. Some (-1)),
     GetMilestoneURL = (\<lambda>i. ''milestone''),
     GetIssueAttachmentUUID = (\<lambda>i n. Some []),
     GetIssueAttachmentURL = (\<lambda>i u. ''attachment''),
     GetWikiAttachmentRelPath = (\<lambda>p n. n),
     GetCommitURL = id,
     GetSourceURL = (\<lambda>b p. p),
     GetIssueURL = (\<lambda>i. ''issues/50''),
     TranslateWikiPageName = id \<rparr>"

definition exConverter :: DefaultConverter where
  "exConverter = \<lparr> tracAccessor = exTrac, giteaAccessor = exGitea, tracNullID = -1, giteaNullID = -1,
     convertEOL = id, convertAnchors = id, convertEscapes = id, convertLists = id, convertDefinitionLists = id,
     convertHeadings = id, convertFontStyles = id, convertBlockQuotes = id, convertTables = id, convertParagraphs = id \<rparr>"

section \<open>Evaluation\<close>

text \<open>
  Collections of the defining equations of the link conversion, for evaluating it on a given text.
\<close>

lemmas link_regexp_defs = doubleBracketImageLinkRegexp_def doubleBracketLinkRegexp_def
  singleBracketLinkRegexp_def httpLinkRegexp_def htdocsLinkRegexp_def localFileLinkRegexp_def
  ticketCommentLinkRegexp_def milestoneLinkRegexp_def attachmentLinkRegexp_def
  changesetLinkRegexp_def sourceLinkRegexp_def ticketLinkRegexp_def wikiLinkRegexp_def
  wikiCamelCaseLinkRegexp_def noTextMarkedLinkRegexp_def markedLinkRegexp_def
  httpLinkDisguiseRegexp_def httpLinkUndisguiseRegexp_def urlChars_def isUrlChar_def
  zeroWidthSpace_def

lemmas link_defs = markLink_def resolveHTTPLink_def resolveHtdocsLink_def
  resolveTicketCommentLink_def resolveMilestoneLink_def resolveTicketAttachmentLink_def
  resolveWikiAttachmentLink_def resolveAttachmentLink_def resolveChangesetLink_def
  resolveSourceLink_def resolveTicketLink_def resolveWikiLink_def resolveWikiCamelCaseLink_def
  convertBrackettedTracLinks_def convertUnbrackettedTracLinks_def unmarkLinks_def
  convertLinks_def disguiseLinks_def undisguiseLinks_def ParseInt_def EqualFold_def
  asciiLower_def ReplaceAll_def

section \<open>The replacement loop, one position at a time\<close>

text \<open>
  \<open>replaceAll\<close> copies a character at which the pattern does not match and goes on
  after it; at a match it puts the replacement and goes on after the match.
\<close>

lemma replaceAll_Nil: "replaceAll r f b [] = []"
  by (subst replaceAll.simps) (simp split: list.splits)

lemma replaceAll_skip:
  assumes "ms r (b, x # xs, \<lambda>_. []) = []"
  shows "replaceAll r f b (x # xs) = x # replaceAll r f (x # b) xs"
proof (cases "leftmost r (x # b) xs")
  case None
  with assms show ?thesis
    by (subst (1 2) replaceAll.simps) simp
next
  case (Some a)
  obtain skip m c rest where a: "a = (skip, m, c, rest)" by (cases a)
  with assms Some show ?thesis
    by (subst (1 2) replaceAll.simps) simp
qed

lemma replaceAll_match:
  assumes "ms r (b, m @ s', \<lambda>_. []) = (b', s', c') # sts" and "m \<noteq> []"
  shows "replaceAll r f b (m @ s') = f (c'(0 := m)) @ replaceAll r f (rev m @ b) s'"
proof -
  from assms(2) obtain x xs where x: "m @ s' = x # xs" by (cases m) auto
  have "take (length (m @ s') - length s') (m @ s') = m" by simp
  then have t: "take (length (x # xs) - length s') (x # xs) = m" by (simp only: x)
  from assms(1) have "ms r (b, x # xs, \<lambda>_. []) = (b', s', c') # sts" by (simp only: x)
  then have "leftmost r b (x # xs) = Some ([], take (length (x # xs) - length s') (x # xs), c', s')"
    by simp
  then have "leftmost r b (m @ s') = Some ([], m, c', s')" by (simp only: t x)
  with assms(2) show ?thesis
    by (subst replaceAll.simps) simp
qed

section \<open>Properties of the code block parser\<close>

text \<open>
  Collections of the defining equations, for evaluating the functions on a given text.
\<close>

lemmas regexp_api_defs = MatchString_def FindString_def FindStringSubmatch_def Split2_def
  ReplaceAllString_def ReplaceAllStringFunc_def ReplaceAllStringFuncW_def replaceAll.simps
  replaceAllW.simps

lemmas class_defs = inRange_def isDigit_def isUpper_def isLower_def isAlpha_def isAlnum_def
  isXdigit_def isWord_def isPerlSpace_def isPosixSpace_def

lemmas codeBlock_defs = convertCodeBlocks_def parseCodeBlocks.simps codeBlockBoundaryRegexp_def
  tracProcessorRegexp_def tracProcessorOf_def openBoundary_def closeBoundary_def htmlTags_def
  codeLangs_def langMap_def disguiseOpen_def disguiseClose_def TrimSpace_def unicodeSpaces_def
  trimLeftSpace.simps trimRightSpace.simps suffix_to_prefix Let_def

lemma isAlpha_not_space_head:
  assumes "isAlpha c" and "w \<in> set unicodeSpaces"
  shows "hd w \<noteq> c"
  using assms by (auto simp: unicodeSpaces_def class_defs)

lemma trimLeftSpace_alpha:
  assumes "prefix p s" and "p \<noteq> []" and "\<forall>c\<in>set p. isAlpha c"
  shows "trimLeftSpace s = s"
proof -
  from assms obtain x p' s' where p: "p = x # p'" and s: "s = x # s'" and x: "isAlpha x"
    by (cases p; cases s) auto
  have "find (\<lambda>w. prefix w s) unicodeSpaces = None"
  proof (rule ccontr)
    assume "find (\<lambda>w. prefix w s) unicodeSpaces \<noteq> None"
    then obtain w where w: "w \<in> set unicodeSpaces" and pw: "prefix w s"
      by (auto simp: find_None_iff)
    from unicodeSpaces_nonempty[OF w] pw s have "hd w = x" by (cases w) auto
    with isAlpha_not_space_head[OF x w] show False by simp
  qed
  then show ?thesis by (simp add: trimLeftSpace.simps)
qed

lemma trimRightSpace_alpha:
  assumes "prefix p s" and "\<forall>c\<in>set p. isAlpha c"
  shows "prefix p (trimRightSpace s)"
  using assms
proof (induction s rule: trimRightSpace.induct)
  case (1 s)
  show ?case
  proof (cases "find (\<lambda>w. suffix w s) unicodeSpaces")
    case None
    with 1(2) show ?thesis by (simp add: trimRightSpace.simps)
  next
    case (Some w)
    then have w: "w \<in> set unicodeSpaces" and sw: "suffix w s"
      by (auto simp: find_Some_iff)
    from sw obtain s0 where s: "s = s0 @ w" by (auto simp: suffix_def)
    have "prefix p s0"
    proof (rule ccontr)
      assume n: "\<not> prefix p s0"
      from 1(2) s have "prefix p (s0 @ w)" by simp
      with n obtain us where "us \<noteq> []" "prefix us w" "p = s0 @ us"
        by (auto simp: prefix_append)
      then have "hd w \<in> set p" by (cases us; cases w) auto
      with 1(3) isAlpha_not_space_head[OF _ w] show False by auto
    qed
    moreover have "take (length s - length w) s = s0" using s by simp
    ultimately show ?thesis using 1(1)[OF Some] 1(3) Some
      by (subst trimRightSpace.simps) simp
  qed
qed

lemma TrimSpace_alpha_prefix:
  assumes "prefix p s" and "p \<noteq> []" and "\<forall>c\<in>set p. isAlpha c"
  shows "prefix p (TrimSpace s)"
  using trimLeftSpace_alpha[OF assms] trimRightSpace_alpha[OF assms(1,3)]
  by (simp add: TrimSpace_def)

lemma no_codeLang_prefix:
  assumes "TrimSpace tp \<in> set codeLangs" and "p \<noteq> []" and "\<forall>c\<in>set p. isAlpha c"
    and "\<forall>l\<in>set codeLangs. \<not> prefix p l"
  shows "\<not> prefix p tp"
proof
  assume "prefix p tp"
  from TrimSpace_alpha_prefix[OF this assms(2,3)] assms(1,4) show False by auto
qed

lemma codeLang_prefixes:
  assumes "TrimSpace tp \<in> set codeLangs"
  shows "\<not> prefix ''CommitTicketReference'' tp" and "\<not> prefix ''div'' tp"
    and "\<not> prefix ''td'' tp" and "\<not> prefix ''th'' tp" and "\<not> prefix ''tr'' tp"
    and "\<not> prefix ''table'' tp" and "\<not> prefix ''comment'' tp"
    and "\<not> prefix ''htmlcomment'' tp" and "\<not> prefix ''html'' tp"
  by (rule no_codeLang_prefix[OF assms]; simp add: codeLangs_def class_defs)+

lemma openBoundary_codeLang:
  assumes "TrimSpace tp \<in> set codeLangs"
  shows "openBoundary tp =
           (disguiseOpen @ (case langMap (TrimSpace tp) of Some fixedLang \<Rightarrow> fixedLang
                            | None \<Rightarrow> TrimSpace tp), [])"
proof -
  note n = codeLang_prefixes[OF assms]
  from assms consider "TrimSpace tp = ''c''" | "TrimSpace tp = ''c++''" | "TrimSpace tp = ''ps1''"
    | "TrimSpace tp = ''php''" | "TrimSpace tp = ''py''" | "TrimSpace tp = ''sh''"
    | "TrimSpace tp = ''cpp''" | "TrimSpace tp = ''pl''"
    by (auto simp: codeLangs_def)
  then show ?thesis
    using n by cases (simp_all add: openBoundary_def htmlTags_def codeLangs_def langMap_def)
qed

lemma openBoundary_unknown:
  assumes "TrimSpace tp \<notin> set codeLangs" and "tp \<noteq> []"
    and "\<not> prefix ''CommitTicketReference'' tp"
    and "\<forall>tag\<in>set htmlTags. \<not> prefix tag tp"
    and "\<not> prefix ''comment'' tp" and "\<not> prefix ''html'' tp"
  shows "openBoundary tp = (disguiseOpen @ ''#!'' @ tp, [])"
proof -
  from assms(6) have "\<not> prefix ''htmlcomment'' tp"
    by (auto simp: prefix_def)
  with assms show ?thesis
    by (simp add: openBoundary_def htmlTags_def codeLangs_def)
qed

lemma parse_at_boundary:
  assumes "leftmost codeBlockBoundaryRegexp [] inp = Some (before, m, c, after)"
  shows "MatchString codeBlockBoundaryRegexp inp"
    and "Split2 codeBlockBoundaryRegexp inp = [before, after]"
    and "FindString codeBlockBoundaryRegexp inp = m"
proof -
  from leftmost_decomp[OF assms] have "3 \<le> length m"
    by (simp add: codeBlockBoundaryRegexp_def)
  then have "m \<noteq> []" by auto
  with assms show "MatchString codeBlockBoundaryRegexp inp"
    and "Split2 codeBlockBoundaryRegexp inp = [before, after]"
    and "FindString codeBlockBoundaryRegexp inp = m"
    by (simp_all add: MatchString_def Split2_def FindString_def)
qed

lemma parse_opening:
  assumes "leftmost codeBlockBoundaryRegexp [] inp = Some (before, ''{{{'', c, after)"
    and "tracProcessorOf after = (tp, after')"
    and "openBoundary tp = (convertedBoundary, blockType)"
  shows "parseCodeBlocks inp accumulated w =
           (before @ convertedBoundary @ fst (parseCodeBlocks after' (accumulated @ [blockType]) w),
            snd (parseCodeBlocks after' (accumulated @ [blockType]) w))"
  using parse_at_boundary[OF assms(1)] assms(2,3)
  by (subst parseCodeBlocks.simps) (simp add: split_beta)

subsection \<open>Comment processors\<close>

text \<open>
  A processor that starts with \<open>htmlcomment\<close> also starts with \<open>html\<close>. The test for
  \<open>html\<close> comes last in \<open>parseCodeBlocks\<close> and overwrites what the test for comments has
  set, so the block is opened as raw html: nothing is emitted for its boundaries.
\<close>

lemma openBoundary_htmlcomment:
  "prefix ''htmlcomment'' tracProcessor \<Longrightarrow> openBoundary tracProcessor = ([], ''html'')"
  by (auto simp: openBoundary_def prefix_def Let_def)

text \<open>
  Claim C1: an opening whose processor starts with \<open>htmlcomment\<close> or \<open>comment\<close> emits the
  comment opener and its closing boundary emits \<open>-->\<close>. The code does so for \<open>comment\<close>
  only: for \<open>htmlcomment\<close> both boundaries are dropped and the contents are left bare.
\<close>

theorem htmlcomment_block_is_raw_html:
  "convertCodeBlocks (''{{{#!htmlcomment'' @ [newline] @ ''hidden'' @ [newline] @ ''}}}'') []
     = ([newline] @ ''hidden'' @ [newline], [])
   \<and> convertCodeBlocks (''{{{#!comment'' @ [newline] @ ''hidden'' @ [newline] @ ''}}}'') []
     = (''<!---'' @ [newline] @ ''hidden'' @ [newline] @ ''-->'', [])"
  by (simp add: regexp_api_defs class_defs codeBlock_defs)

subsection \<open>Language processors\<close>

text \<open>
  Claim C3, as stated, says that every processor outside the recognised languages gives a
  fence that carries \<open>#!\<close> and the processor. It fails for the processors the later tests
  of \<open>parseCodeBlocks\<close> handle: \<open>div\<close> is not a recognised language and opens a tag.
\<close>

theorem unrecognized_div_counterexample:
  "TrimSpace ''div'' \<notin> set codeLangs
   \<and> FindStringSubmatch tracProcessorRegexp ''#!div'' \<noteq> None
   \<and> fst (parseCodeBlocks ''{{{#!div'' [] []) = ''<div>'' @ [newline]
   \<and> fst (parseCodeBlocks ''{{{#!div'' [] []) \<noteq> disguiseOpen @ ''#!div''"
  by (simp add: regexp_api_defs class_defs codeBlock_defs)

text \<open>
  Claim C3, amended: after an opening with a processor directive, a processor that is a
  recognised language once trimmed gives the fence with that language, \<open>c++\<close> becoming
  \<open>cpp\<close>, and no \<open>#!\<close>; a processor that is not one, is not empty and does not start with
  \<open>CommitTicketReference\<close>, a block tag, \<open>comment\<close> or \<open>html\<close> gives the fence followed by
  \<open>#!\<close> and the processor as written. In both cases an empty block type is pushed.
\<close>

theorem opening_fence_language:
  assumes "leftmost codeBlockBoundaryRegexp [] inp = Some (before, ''{{{'', c, after)"
    and "FindStringSubmatch tracProcessorRegexp after = Some match"
  shows "(TrimSpace (match 1) \<in> set codeLangs \<longrightarrow>
            fst (parseCodeBlocks inp accumulated w) =
              before @ disguiseOpen
              @ (case langMap (TrimSpace (match 1)) of Some fixedLang \<Rightarrow> fixedLang
                 | None \<Rightarrow> TrimSpace (match 1))
              @ fst (parseCodeBlocks (Split2 tracProcessorRegexp after ! 1) (accumulated @ [[]]) w))
       \<and> (TrimSpace (match 1) \<notin> set codeLangs \<and> match 1 \<noteq> []
            \<and> \<not> prefix ''CommitTicketReference'' (match 1)
            \<and> (\<forall>tag\<in>set htmlTags. \<not> prefix tag (match 1))
            \<and> \<not> prefix ''comment'' (match 1) \<and> \<not> prefix ''html'' (match 1) \<longrightarrow>
            fst (parseCodeBlocks inp accumulated w) =
              before @ disguiseOpen @ ''#!'' @ match 1
              @ fst (parseCodeBlocks (Split2 tracProcessorRegexp after ! 1) (accumulated @ [[]]) w))"
proof -
  from assms(2) have t: "tracProcessorOf after = (match 1, Split2 tracProcessorRegexp after ! 1)"
    by (simp add: tracProcessorOf_def)
  show ?thesis
  proof (intro conjI impI)
    assume "TrimSpace (match 1) \<in> set codeLangs"
    from parse_opening[OF assms(1) t openBoundary_codeLang[OF this]]
    show "fst (parseCodeBlocks inp accumulated w) =
              before @ disguiseOpen
              @ (case langMap (TrimSpace (match 1)) of Some fixedLang \<Rightarrow> fixedLang
                 | None \<Rightarrow> TrimSpace (match 1))
              @ fst (parseCodeBlocks (Split2 tracProcessorRegexp after ! 1) (accumulated @ [[]]) w)"
      by simp
  next
    assume a: "TrimSpace (match 1) \<notin> set codeLangs \<and> match 1 \<noteq> []
            \<and> \<not> prefix ''CommitTicketReference'' (match 1)
            \<and> (\<forall>tag\<in>set htmlTags. \<not> prefix tag (match 1))
            \<and> \<not> prefix ''comment'' (match 1) \<and> \<not> prefix ''html'' (match 1)"
    then have "openBoundary (match 1) = (disguiseOpen @ ''#!'' @ match 1, [])"
      by (intro openBoundary_unknown) simp_all
    from parse_opening[OF assms(1) t this]
    show "fst (parseCodeBlocks inp accumulated w) =
              before @ disguiseOpen @ ''#!'' @ match 1
              @ fst (parseCodeBlocks (Split2 tracProcessorRegexp after ! 1) (accumulated @ [[]]) w)"
      by simp
  qed
qed

theorem opening_fence_language_witness:
  "fst (parseCodeBlocks (''x{{{#!c++ '' @ [newline] @ ''y'') [] [])
     = ''x'' @ disguiseOpen @ ''cpp'' @ [newline] @ ''y''
   \<and> fst (parseCodeBlocks (''{{{#!python'' @ [newline] @ ''x=1'') [] [])
     = disguiseOpen @ ''#!python'' @ [newline] @ ''x=1''"
proof -
  let ?c = "\<lambda>_::nat. []::string"
  have a1: "leftmost codeBlockBoundaryRegexp [] (''x{{{#!c++ '' @ [newline] @ ''y'')
              = Some (''x'', ''{{{'', ?c, ''#!c++ '' @ [newline] @ ''y'')"
    by (simp add: codeBlockBoundaryRegexp_def)
  have a2: "FindStringSubmatch tracProcessorRegexp (''#!c++ '' @ [newline] @ ''y'')
              = Some (?c(1 := ''c++ '', 0 := ''#!c++ ''))"
    by (simp add: regexp_api_defs class_defs tracProcessorRegexp_def)
  have a3: "TrimSpace ''c++ '' = ''c++''"
    by (simp add: TrimSpace_def unicodeSpaces_def trimLeftSpace.simps trimRightSpace.simps suffix_to_prefix)
  have a4: "Split2 tracProcessorRegexp (''#!c++ '' @ [newline] @ ''y'') ! 1 = [newline] @ ''y''"
    by (simp add: regexp_api_defs class_defs tracProcessorRegexp_def)
  have a5: "parseCodeBlocks ([newline] @ ''y'') [[]] [] = ([newline] @ ''y'', [LogError ''Parsing issue during markdown conversion of code blocks. Some opening triple brackets are not closed.''])"
    by (simp add: regexp_api_defs class_defs codeBlock_defs)
  have b1: "leftmost codeBlockBoundaryRegexp [] (''{{{#!python'' @ [newline] @ ''x=1'')
              = Some ([], ''{{{'', ?c, ''#!python'' @ [newline] @ ''x=1'')"
    by (simp add: codeBlockBoundaryRegexp_def)
  have b2: "FindStringSubmatch tracProcessorRegexp (''#!python'' @ [newline] @ ''x=1'')
              = Some (?c(1 := ''python'', 0 := ''#!python''))"
    by (simp add: regexp_api_defs class_defs tracProcessorRegexp_def)
  have b3: "TrimSpace ''python'' = ''python''"
    by (simp add: TrimSpace_def unicodeSpaces_def trimLeftSpace.simps trimRightSpace.simps suffix_to_prefix)
  have b4: "Split2 tracProcessorRegexp (''#!python'' @ [newline] @ ''x=1'') ! 1 = [newline] @ ''x=1''"
    by (simp add: regexp_api_defs class_defs tracProcessorRegexp_def)
  have b5: "parseCodeBlocks ([newline] @ ''x=1'') [[]] [] = ([newline] @ ''x=1'', [LogError ''Parsing issue during markdown conversion of code blocks. Some opening triple brackets are not closed.''])"
    by (simp add: regexp_api_defs class_defs codeBlock_defs)
  from opening_fence_language[OF a1 a2, of "[]" "[]"] a3 a4 a5
  have "fst (parseCodeBlocks (''x{{{#!c++ '' @ [newline] @ ''y'') [] [])
     = ''x'' @ disguiseOpen @ ''cpp'' @ [newline] @ ''y''"
    by (simp add: codeLangs_def langMap_def)
  moreover from opening_fence_language[OF b1 b2, of "[]" "[]"] b3 b4 b5
  have "fst (parseCodeBlocks (''{{{#!python'' @ [newline] @ ''x=1'') [] [])
     = disguiseOpen @ ''#!python'' @ [newline] @ ''x=1''"
    by (simp add: codeLangs_def htmlTags_def)
  ultimately show ?thesis by simp
qed

subsection \<open>A closing boundary outside any block\<close>

text \<open>
  Claim C4: when the next boundary is \<open>}}}\<close> and no block is open, the text before it and
  the three braces are emitted as they are, nothing is logged for it, and the rest of the
  text is parsed with no block open.
\<close>

theorem unmatched_close_is_literal:
  assumes "leftmost codeBlockBoundaryRegexp [] inp = Some (before, ''}}}'', c, after)"
  shows "inp = before @ ''}}}'' @ after
       \<and> parseCodeBlocks inp [] w =
           (before @ ''}}}'' @ fst (parseCodeBlocks after [] w), snd (parseCodeBlocks after [] w))"
  using parse_at_boundary[OF assms] leftmost_decomp[OF assms]
  by (subst parseCodeBlocks.simps) (simp add: split_beta)

theorem unmatched_close_is_literal_witness:
  "leftmost codeBlockBoundaryRegexp [] ''a}}}b'' = Some (''a'', ''}}}'', \<lambda>_. [], ''b'')
   \<and> parseCodeBlocks ''a}}}b'' [] [] = (''a}}}b'', [])"
proof -
  have a: "leftmost codeBlockBoundaryRegexp [] ''a}}}b'' = Some (''a'', ''}}}'', \<lambda>_. [], ''b'')"
    by (simp add: codeBlockBoundaryRegexp_def)
  have b: "parseCodeBlocks ''b'' [] [] = (''b'', [])"
    by (simp add: regexp_api_defs codeBlock_defs)
  from unmatched_close_is_literal[OF a, of "[]"] a b show ?thesis by simp
qed

subsection \<open>End of the text inside a block\<close>










lemma unclosed_block_example:
  "convertCodeBlocks ''a{{{code'' []
     = (''a'' @ disguiseOpen @ ''code'', [LogError ''Parsing issue during markdown conversion of code blocks. Some opening triple brackets are not closed.''])"
  by (simp add: regexp_api_defs class_defs codeBlock_defs)

subsection \<open>Termination\<close>

text \<open>
  Claim C8: \<open>parseCodeBlocks\<close> terminates on every text. A text with no boundary is
  returned at once; otherwise the recursive call is on the text after the boundary, or after
  the processor directive that follows it, and both are strictly shorter than the text.
\<close>

theorem parseCodeBlocks_terminates:
  "parseCodeBlocks_dom (inp, accumulated, w)
   \<and> (\<not> MatchString codeBlockBoundaryRegexp inp \<longrightarrow> fst (parseCodeBlocks inp accumulated w) = inp)
   \<and> (MatchString codeBlockBoundaryRegexp inp \<longrightarrow>
        length (Split2 codeBlockBoundaryRegexp inp ! 1) < length inp
        \<and> length (snd (tracProcessorOf (Split2 codeBlockBoundaryRegexp inp ! 1))) < length inp)"
proof (intro conjI impI)
  show "parseCodeBlocks_dom (inp, accumulated, w)"
  proof (induction "length inp" arbitrary: inp accumulated w rule: less_induct)
    case less
    show ?case
    proof (rule parseCodeBlocks.domintros, goal_cases)
      case (1 tracProcessor afterBoundary' convertedBoundary blockType)
      from 1(1) have m: "MatchString codeBlockBoundaryRegexp inp" by simp
      from boundary_after_shorter[OF m] tracProcessorOf_not_longer[OF 1(3)[symmetric]]
      have "length afterBoundary' < length inp" by simp
      then show ?case by (rule less)
    next
      case 2
      then have "MatchString codeBlockBoundaryRegexp inp" by simp
      from boundary_after_shorter[OF this] show ?case by (intro less) simp
    next
      case 3
      then have "MatchString codeBlockBoundaryRegexp inp" by simp
      from boundary_after_shorter[OF this] show ?case by (intro less) simp
    next
      case 4
      then have "MatchString codeBlockBoundaryRegexp inp" by simp
      from boundary_after_shorter[OF this] show ?case by (intro less) simp
    qed
  qed
next
  assume "\<not> MatchString codeBlockBoundaryRegexp inp"
  then show "fst (parseCodeBlocks inp accumulated w) = inp"
    by (subst parseCodeBlocks.simps) simp
next
  assume m: "MatchString codeBlockBoundaryRegexp inp"
  from boundary_after_shorter[OF m]
  show "length (Split2 codeBlockBoundaryRegexp inp ! 1) < length inp" .
  obtain tp a' where t: "tracProcessorOf (Split2 codeBlockBoundaryRegexp inp ! 1) = (tp, a')"
    by (cases "tracProcessorOf (Split2 codeBlockBoundaryRegexp inp ! 1)")
  from tracProcessorOf_not_longer[OF t] boundary_after_shorter[OF m] t
  show "length (snd (tracProcessorOf (Split2 codeBlockBoundaryRegexp inp ! 1))) < length inp"
    by simp
qed

theorem parseCodeBlocks_terminates_witness:
  "parseCodeBlocks_dom (''a{{{#!py'' @ [newline] @ ''b'', [], [])
   \<and> MatchString codeBlockBoundaryRegexp (''a{{{#!py'' @ [newline] @ ''b'')
   \<and> Split2 codeBlockBoundaryRegexp (''a{{{#!py'' @ [newline] @ ''b'') ! 1 = ''#!py'' @ [newline] @ ''b''
   \<and> snd (tracProcessorOf (''#!py'' @ [newline] @ ''b'')) = [newline] @ ''b''
   \<and> \<not> MatchString codeBlockBoundaryRegexp ''b''
   \<and> fst (parseCodeBlocks ''b'' [] []) = ''b''"
proof -
  have a: "MatchString codeBlockBoundaryRegexp (''a{{{#!py'' @ [newline] @ ''b'')"
    by (simp add: MatchString_def codeBlockBoundaryRegexp_def)
  have b: "Split2 codeBlockBoundaryRegexp (''a{{{#!py'' @ [newline] @ ''b'') ! 1 = ''#!py'' @ [newline] @ ''b''"
    by (simp add: Split2_def codeBlockBoundaryRegexp_def)
  have c: "snd (tracProcessorOf (''#!py'' @ [newline] @ ''b'')) = [newline] @ ''b''"
    by (simp add: regexp_api_defs class_defs tracProcessorOf_def tracProcessorRegexp_def)
  have d: "\<not> MatchString codeBlockBoundaryRegexp ''b''"
    by (simp add: MatchString_def codeBlockBoundaryRegexp_def)
  from parseCodeBlocks_terminates[of "''a{{{#!py'' @ [newline] @ ''b''" "[]" "[]"]
       parseCodeBlocks_terminates[of "''b''" "[]" "[]"] a b c d
  show ?thesis by simp
qed

section \<open>Properties of the converter\<close>

subsection \<open>The text returned does not depend on the effects so far\<close>

lemma replaceAllW_fst:
  assumes "\<And>c w. fst (repl c w) = f c"
  shows "fst (replaceAllW r repl b s w) = replaceAll r f b s"
  using assms
proof (induction r repl b s w rule: replaceAllW.induct)
  case (1 r repl b s w)
  show ?case
  proof (cases "leftmost r b s")
    case None
    then show ?thesis by (simp add: replaceAllW.simps replaceAll.simps)
  next
    case (Some a)
    obtain skip m c rest where a: "a = (skip, m, c, rest)" by (cases a)
    show ?thesis
    proof (cases "m = []")
      case True
      with Some a show ?thesis by (simp add: replaceAllW.simps replaceAll.simps)
    next
      case False
      obtain new w' where n: "repl (c(0 := m)) w = (new, w')" by (cases "repl (c(0 := m)) w")
      from "1.prems" n have f: "f (c(0 := m)) = new" by (metis fst_conv)
      from "1.IH"[OF Some[unfolded a] _ _ _ False n[symmetric]] "1.prems"
      have "fst (replaceAllW r repl (rev m @ rev skip @ b) rest w') = replaceAll r f (rev m @ rev skip @ b) rest"
        by simp
      with Some a False n f show ?thesis
        by (subst replaceAllW.simps, subst replaceAll.simps) (simp add: split_beta)
    qed
  qed
qed

lemma ReplaceAllStringFuncW_fst:
  assumes "\<And>m w. fst (f m w) = g m"
  shows "fst (ReplaceAllStringFuncW r s f w) = ReplaceAllStringFunc r s g"
  unfolding ReplaceAllStringFuncW_def ReplaceAllStringFunc_def
  by (rule replaceAllW_fst) (rule assms)

lemma parseCodeBlocks_fst:
  "fst (parseCodeBlocks inp accumulated w) = fst (parseCodeBlocks inp accumulated w')"
proof (induction inp accumulated w arbitrary: w' rule: parseCodeBlocks.induct)
  case (1 inp accumulated w)
  show ?case
  proof (cases "MatchString codeBlockBoundaryRegexp inp")
    case False
    then show ?thesis by (simp add: parseCodeBlocks.simps)
  next
    case True
    note m = True
    show ?thesis
    proof (cases "FindString codeBlockBoundaryRegexp inp = ''{{{''")
      case True
      obtain tp a' where t: "tracProcessorOf (Split2 codeBlockBoundaryRegexp inp ! 1) = (tp, a')"
        by (cases "tracProcessorOf (Split2 codeBlockBoundaryRegexp inp ! 1)")
      obtain cb bt where ob: "openBoundary tp = (cb, bt)" by (cases "openBoundary tp")
      from 1(1)[OF _ refl refl refl True t[symmetric] ob[symmetric], of w'] m
      have "fst (parseCodeBlocks a' (accumulated @ [bt]) w) = fst (parseCodeBlocks a' (accumulated @ [bt]) w')"
        by simp
      with m True t ob show ?thesis
        by (subst (1 2) parseCodeBlocks.simps) (simp add: split_beta Let_def)
    next
      case False
      note o = False
      show ?thesis
      proof (cases "FindString codeBlockBoundaryRegexp inp = ''}}}''")
        case True
        show ?thesis
        proof (cases "length accumulated = 0")
          case True
          note e = True
          from 1(2)[OF _ refl refl refl o \<open>FindString codeBlockBoundaryRegexp inp = ''}}}''\<close> e, of w'] m
          have "fst (parseCodeBlocks (Split2 codeBlockBoundaryRegexp inp ! 1) accumulated w)
                = fst (parseCodeBlocks (Split2 codeBlockBoundaryRegexp inp ! 1) accumulated w')"
            by simp
          with m o \<open>FindString codeBlockBoundaryRegexp inp = ''}}}''\<close> e show ?thesis
            by (subst (1 2) parseCodeBlocks.simps) (simp add: split_beta Let_def)
        next
          case False
          note e = False
          from 1(3)[OF _ refl refl refl o \<open>FindString codeBlockBoundaryRegexp inp = ''}}}''\<close> e, of w'] m
          have "fst (parseCodeBlocks (Split2 codeBlockBoundaryRegexp inp ! 1) (butlast accumulated) w)
                = fst (parseCodeBlocks (Split2 codeBlockBoundaryRegexp inp ! 1) (butlast accumulated) w')"
            by simp
          with m o \<open>FindString codeBlockBoundaryRegexp inp = ''}}}''\<close> e show ?thesis
            by (subst (1 2) parseCodeBlocks.simps) (simp add: split_beta Let_def)
        qed
      next
        case False
        from 1(4)[OF _ refl refl refl o False, of w'] m
        have "fst (parseCodeBlocks (Split2 codeBlockBoundaryRegexp inp ! 1) accumulated w)
              = fst (parseCodeBlocks (Split2 codeBlockBoundaryRegexp inp ! 1) accumulated w')"
          by simp
        with m o False show ?thesis
          by (subst (1 2) parseCodeBlocks.simps) (simp add: split_beta Let_def)
      qed
    qed
  qed
qed

lemma resolvers_fst:
  "fst (resolveHtdocsLink cv link w) = fst (resolveHtdocsLink cv link w')"
  "fst (resolveTicketCommentLink cv t link w) = fst (resolveTicketCommentLink cv t link w')"
  "fst (resolveMilestoneLink cv link w) = fst (resolveMilestoneLink cv link w')"
  "fst (resolveTicketAttachmentLink cv t name link w) = fst (resolveTicketAttachmentLink cv t name link w')"
  "fst (resolveTicketLink cv link w) = fst (resolveTicketLink cv link w')"
  by (simp_all add: resolveHtdocsLink_def resolveTicketCommentLink_def resolveMilestoneLink_def
      resolveTicketAttachmentLink_def resolveTicketLink_def Let_def
      split: option.splits sum.splits)

lemma resolveAttachmentLink_fst:
  "fst (resolveAttachmentLink cv t p link w) = fst (resolveAttachmentLink cv t p link w')"
  using resolvers_fst(4)[of cv _ _ link w w']
  by (simp add: resolveAttachmentLink_def Let_def split: option.splits)

lemma convertUnbrackettedTracLinks_fst:
  "fst (convertUnbrackettedTracLinks cv t p inp w) = fst (convertUnbrackettedTracLinks cv t p inp w')"
proof -
  have a: "\<And>s v. fst (ReplaceAllStringFuncW htdocsLinkRegexp s (resolveHtdocsLink cv) v)
             = ReplaceAllStringFunc htdocsLinkRegexp s (\<lambda>m. fst (resolveHtdocsLink cv m []))"
    by (rule ReplaceAllStringFuncW_fst) (rule resolvers_fst)
  have b: "\<And>s v. fst (ReplaceAllStringFuncW ticketCommentLinkRegexp s (resolveTicketCommentLink cv t) v)
             = ReplaceAllStringFunc ticketCommentLinkRegexp s (\<lambda>m. fst (resolveTicketCommentLink cv t m []))"
    by (rule ReplaceAllStringFuncW_fst) (rule resolvers_fst)
  have c: "\<And>s v. fst (ReplaceAllStringFuncW milestoneLinkRegexp s (resolveMilestoneLink cv) v)
             = ReplaceAllStringFunc milestoneLinkRegexp s (\<lambda>m. fst (resolveMilestoneLink cv m []))"
    by (rule ReplaceAllStringFuncW_fst) (rule resolvers_fst)
  have d: "\<And>s v. fst (ReplaceAllStringFuncW attachmentLinkRegexp s (resolveAttachmentLink cv t p) v)
             = ReplaceAllStringFunc attachmentLinkRegexp s (\<lambda>m. fst (resolveAttachmentLink cv t p m []))"
    by (rule ReplaceAllStringFuncW_fst) (rule resolveAttachmentLink_fst)
  have e: "\<And>s v. fst (ReplaceAllStringFuncW ticketLinkRegexp s (resolveTicketLink cv) v)
             = ReplaceAllStringFunc ticketLinkRegexp s (\<lambda>m. fst (resolveTicketLink cv m []))"
    by (rule ReplaceAllStringFuncW_fst) (rule resolvers_fst)
  show ?thesis
    by (simp add: convertUnbrackettedTracLinks_def Let_def split_beta a b c d e)
qed

lemma convertLinks_fst:
  "fst (convertLinks cv t p inp w) = fst (convertLinks cv t p inp w')"
  using convertUnbrackettedTracLinks_fst[of cv t p _ w w']
  by (simp add: convertLinks_def Let_def split_beta)

lemma convertNonCodeBlockText_fst:
  "fst (convertNonCodeBlockText cv t p inp w) = fst (convertNonCodeBlockText cv t p inp w')"
  using convertLinks_fst[of cv t p _ w w']
  by (simp add: convertNonCodeBlockText_def Let_def split_beta)

lemma convert_fst:
  "fst (convert cv t p inp w) = fst (convert cv t p inp w')"
proof -
  have n: "\<And>s v. fst (convertNonCodeBlocks s (\<lambda>inp. convertNonCodeBlockText cv t p inp) v)
             = ReplaceAllStringFunc nonCodeBlockRegexp s (\<lambda>m. fst (convertNonCodeBlockText cv t p m []))"
    unfolding convertNonCodeBlocks_def
    by (rule ReplaceAllStringFuncW_fst) (rule convertNonCodeBlockText_fst)
  from parseCodeBlocks_fst[of "convertEOL cv inp" "[]" w w'] show ?thesis
    by (simp add: convert_def Let_def split_beta n convertCodeBlocks_def)
qed

text \<open>
  Claim C7: with the collaborators fixed, \<open>TicketConvert\<close> and \<open>WikiConvert\<close> are
  deterministic. The converter keeps no state of its own; the only state a run changes is
  the \<open>world\<close> (the log and the files copied). The text a run returns is the same from any
  two worlds, so a second run, started in the world the first one left, returns the same
  text, and so does resolving the same link a second time.
\<close>

theorem conversion_is_deterministic:
  "fst (TicketConvert converter ticketID inp w) = fst (TicketConvert converter ticketID inp w')
   \<and> fst (WikiConvert converter wikiPage inp w) = fst (WikiConvert converter wikiPage inp w')
   \<and> fst (TicketConvert converter ticketID inp (snd (TicketConvert converter ticketID inp w)))
       = fst (TicketConvert converter ticketID inp w)
   \<and> fst (WikiConvert converter wikiPage inp (snd (WikiConvert converter wikiPage inp w)))
       = fst (WikiConvert converter wikiPage inp w)
   \<and> fst (resolveHtdocsLink converter link w) = fst (resolveHtdocsLink converter link w')
   \<and> fst (resolveTicketCommentLink converter ticketID link w)
       = fst (resolveTicketCommentLink converter ticketID link w')
   \<and> fst (resolveMilestoneLink converter link w) = fst (resolveMilestoneLink converter link w')
   \<and> fst (resolveAttachmentLink converter ticketID wikiPage link w)
       = fst (resolveAttachmentLink converter ticketID wikiPage link w')
   \<and> fst (resolveTicketLink converter link w) = fst (resolveTicketLink converter link w')"
  unfolding TicketConvert_def WikiConvert_def
  by (intro conjI convert_fst resolvers_fst resolveAttachmentLink_fst)

subsection \<open>The empty text\<close>

text \<open>
  Claim C9: both entry points return the empty text for the empty text, and have no
  effect. The end-of-line conversion is not among the sources at hand; the theorem assumes
  that it returns the empty text for the empty text.
\<close>

theorem empty_input_gives_empty_output:
  assumes "convertEOL converter [] = []"
  shows "TicketConvert converter ticketID [] w = ([], w)
       \<and> WikiConvert converter wikiPage [] w = ([], w)"
proof -
  have a: "convertCodeBlocks [] w = ([], w)"
    by (simp add: convertCodeBlocks_def parseCodeBlocks.simps MatchString_def codeBlockBoundaryRegexp_def)
  have b: "\<And>f. convertNonCodeBlocks [] f w = ([], w)"
    by (simp add: convertNonCodeBlocks_def ReplaceAllStringFuncW_def replaceAllW.simps nonCodeBlockRegexp_def)
  have c: "undisguiseCodeBlocks [] = []"
    by (simp add: undisguiseCodeBlocks_def ReplaceAllString_def ReplaceAll_def replaceAll.simps
        singleLineCodeBlockRegexp_def disguiseOpen_def disguiseClose_def)
  from assms a b c show ?thesis
    by (simp add: TicketConvert_def WikiConvert_def convert_def)
qed

theorem empty_input_gives_empty_output_witness:
  "convertEOL exConverter [] = []
   \<and> TicketConvert exConverter 5 [] [] = ([], [])
   \<and> WikiConvert exConverter ''WikiStart'' [] [] = ([], [])"
proof -
  have a: "convertEOL exConverter [] = []" by (simp add: exConverter_def)
  from empty_input_gives_empty_output[OF a, of 5 "[]" "''WikiStart''"] a show ?thesis by simp
qed

subsection \<open>Disguising links around the font styles\<close>

text \<open>
  \<open>disg\<close> and \<open>undisg\<close> are the two replacement loops of \<open>disguiseLinks\<close> and
  \<open>undisguiseLinks\<close>, started anywhere in a text.
\<close>

abbreviation (input) disg :: "string \<Rightarrow> string \<Rightarrow> string" where
  "disg b s \<equiv> replaceAll httpLinkDisguiseRegexp (expand [TGroup 1, TLit '':@@'']) b s"

abbreviation (input) undisg :: "string \<Rightarrow> string \<Rightarrow> string" where
  "undisg b s \<equiv> replaceAll httpLinkUndisguiseRegexp (expand [TGroup 1, TLit ''://'']) b s"

lemma disg_https: "disg b (''https://'' @ r) = ''https:@@'' @ disg (rev ''https://'' @ b) r"
proof -
  have "ms httpLinkDisguiseRegexp (b, ''https://'' @ r, \<lambda>_. [])
          = [(rev ''https://'' @ b, r, (\<lambda>_. [])(1 := ''https''))]"
    by (simp add: httpLinkDisguiseRegexp_def)
  from replaceAll_match[OF this] show ?thesis by simp
qed

lemma disg_http: "disg b (''http://'' @ r) = ''http:@@'' @ disg (rev ''http://'' @ b) r"
proof -
  have "ms httpLinkDisguiseRegexp (b, ''http://'' @ r, \<lambda>_. [])
          = [(rev ''http://'' @ b, r, (\<lambda>_. [])(1 := ''http''))]"
    by (simp add: httpLinkDisguiseRegexp_def)
  from replaceAll_match[OF this] show ?thesis by simp
qed

lemma undisg_https: "undisg b (''https:@@'' @ r) = ''https://'' @ undisg (rev ''https:@@'' @ b) r"
proof -
  have "ms httpLinkUndisguiseRegexp (b, ''https:@@'' @ r, \<lambda>_. [])
          = [(rev ''https:@@'' @ b, r, (\<lambda>_. [])(1 := ''https''))]"
    by (simp add: httpLinkUndisguiseRegexp_def)
  from replaceAll_match[OF this] show ?thesis by simp
qed

lemma undisg_http: "undisg b (''http:@@'' @ r) = ''http://'' @ undisg (rev ''http:@@'' @ b) r"
proof -
  have "ms httpLinkUndisguiseRegexp (b, ''http:@@'' @ r, \<lambda>_. [])
          = [(rev ''http:@@'' @ b, r, (\<lambda>_. [])(1 := ''http''))]"
    by (simp add: httpLinkUndisguiseRegexp_def)
  from replaceAll_match[OF this] show ?thesis by simp
qed

lemma ms_disguise_none:
  assumes "\<not> prefix ''https://'' s" and "\<not> prefix ''http://'' s"
  shows "ms httpLinkDisguiseRegexp (b, s, c) = []"
proof (cases "prefix ''http'' s")
  case False
  then show ?thesis by (simp add: httpLinkDisguiseRegexp_def)
next
  case True
  then obtain r where s: "s = ''http'' @ r" by (auto simp: prefix_def)
  with assms have "\<not> prefix ''s://'' r" and "\<not> prefix ''://'' r" by simp_all
  then show ?thesis
    unfolding s by (cases "prefix ''s'' r") (auto simp: httpLinkDisguiseRegexp_def prefix_def)
qed

lemma ms_undisguise_none:
  assumes "\<not> prefix ''https:@@'' s" and "\<not> prefix ''http:@@'' s"
  shows "ms httpLinkUndisguiseRegexp (b, s, c) = []"
proof (cases "prefix ''http'' s")
  case False
  then show ?thesis by (simp add: httpLinkUndisguiseRegexp_def)
next
  case True
  then obtain r where s: "s = ''http'' @ r" by (auto simp: prefix_def)
  with assms have "\<not> prefix ''s:@@'' r" and "\<not> prefix '':@@'' r" by simp_all
  then show ?thesis
    unfolding s by (cases "prefix ''s'' r") (auto simp: httpLinkUndisguiseRegexp_def prefix_def)
qed

lemma disg_other:
  assumes "\<not> prefix ''https://'' (x # xs)" and "\<not> prefix ''http://'' (x # xs)"
  shows "disg b (x # xs) = x # disg (x # b) xs"
  by (rule replaceAll_skip) (rule ms_disguise_none[OF assms])

lemma undisg_other:
  assumes "\<not> prefix ''https:@@'' (x # xs)" and "\<not> prefix ''http:@@'' (x # xs)"
  shows "undisg b (x # xs) = x # undisg (x # b) xs"
  by (rule replaceAll_skip) (rule ms_undisguise_none[OF assms])

text \<open>
  The first character of a text survives disguising, and after a character other than
  \<open>h\<close> the scan goes on with the next one.
\<close>

lemma disg_Cons:
  assumes "disg b s = y # t"
  shows "\<exists>xs. s = y # xs \<and> (y \<noteq> CHR ''h'' \<longrightarrow> t = disg (y # b) xs)"
proof (cases s)
  case Nil
  with assms show ?thesis by (simp add: replaceAll_Nil)
next
  case (Cons x xs)
  consider "prefix ''https://'' s" | "prefix ''http://'' s"
    | "\<not> prefix ''https://'' s" "\<not> prefix ''http://'' s" by blast
  then show ?thesis
  proof cases
    case 1
    then obtain r where s: "s = ''https://'' @ r" by (auto simp: prefix_def)
    have "disg b s = ''https:@@'' @ disg (rev ''https://'' @ b) r"
      unfolding s by (rule disg_https)
    with assms have "y = CHR ''h''" by simp
    with s show ?thesis by simp
  next
    case 2
    then obtain r where s: "s = ''http://'' @ r" by (auto simp: prefix_def)
    have "disg b s = ''http:@@'' @ disg (rev ''http://'' @ b) r"
      unfolding s by (rule disg_http)
    with assms have "y = CHR ''h''" by simp
    with s show ?thesis by simp
  next
    case 3
    from 3 have "disg b (x # xs) = x # disg (x # b) xs"
      unfolding Cons by (rule disg_other)
    with assms Cons show ?thesis by simp
  qed
qed

lemma disg_step:
  assumes "disg b s = (y # u) @ t" and "y \<noteq> CHR ''h''"
  shows "\<exists>xs. s = y # xs \<and> disg (y # b) xs = u @ t"
  using disg_Cons[of b s y "u @ t"] assms by auto

lemma disg_prefix_http:
  assumes "prefix ''http:@@'' (disg b s)"
  shows "prefix ''http://'' s \<or> prefix ''http:@@'' s"
proof (cases "prefix ''http://'' s")
  case True
  then show ?thesis by simp
next
  case False
  from assms obtain t where d: "disg b s = ''http:@@'' @ t" by (auto simp: prefix_def)
  have n: "\<not> prefix ''https://'' s"
  proof
    assume "prefix ''https://'' s"
    then obtain r where "s = ''https://'' @ r" by (auto simp: prefix_def)
    with d disg_https[of b r] show False by simp
  qed
  from d obtain xs0 where s0: "s = CHR ''h'' # xs0" using disg_Cons[of b s "CHR ''h''"] by auto
  from n False have "disg b (CHR ''h'' # xs0) = CHR ''h'' # disg (CHR ''h'' # b) xs0"
    unfolding s0 by (rule disg_other[OF _ _])
  with d s0 have d0: "disg (CHR ''h'' # b) xs0 = ''ttp:@@'' @ t" by simp
  from disg_step[OF d0] obtain xs1 where s1: "xs0 = CHR ''t'' # xs1" and d1: "disg (CHR ''t'' # CHR ''h'' # b) xs1 = ''tp:@@'' @ t"
    by auto
  from disg_step[OF d1] obtain xs2 where s2: "xs1 = CHR ''t'' # xs2" and d2: "disg (CHR ''t'' # CHR ''t'' # CHR ''h'' # b) xs2 = ''p:@@'' @ t"
    by auto
  from disg_step[OF d2] obtain xs3 where s3: "xs2 = CHR ''p'' # xs3" and d3: "disg (CHR ''p'' # CHR ''t'' # CHR ''t'' # CHR ''h'' # b) xs3 = '':@@'' @ t"
    by auto
  from disg_step[OF d3] obtain xs4 where s4: "xs3 = CHR '':'' # xs4" and d4: "disg (CHR '':'' # CHR ''p'' # CHR ''t'' # CHR ''t'' # CHR ''h'' # b) xs4 = ''@@'' @ t"
    by auto
  from disg_step[OF d4] obtain xs5 where s5: "xs4 = CHR ''@'' # xs5" and d5: "disg (CHR ''@'' # CHR '':'' # CHR ''p'' # CHR ''t'' # CHR ''t'' # CHR ''h'' # b) xs5 = ''@'' @ t"
    by auto
  from disg_step[OF d5] obtain xs6 where s6: "xs5 = CHR ''@'' # xs6"
    by auto
  from s0 s1 s2 s3 s4 s5 s6 show ?thesis by simp
qed

lemma disg_prefix_https:
  assumes "prefix ''https:@@'' (disg b s)"
  shows "prefix ''https://'' s \<or> prefix ''https:@@'' s"
proof (cases "prefix ''https://'' s")
  case True
  then show ?thesis by simp
next
  case False
  from assms obtain t where d: "disg b s = ''https:@@'' @ t" by (auto simp: prefix_def)
  have n: "\<not> prefix ''http://'' s"
  proof
    assume "prefix ''http://'' s"
    then obtain r where "s = ''http://'' @ r" by (auto simp: prefix_def)
    with d disg_http[of b r] show False by simp
  qed
  from d obtain xs0 where s0: "s = CHR ''h'' # xs0" using disg_Cons[of b s "CHR ''h''"] by auto
  from False n have "disg b (CHR ''h'' # xs0) = CHR ''h'' # disg (CHR ''h'' # b) xs0"
    unfolding s0 by (rule disg_other[OF _ _])
  with d s0 have d0: "disg (CHR ''h'' # b) xs0 = ''ttps:@@'' @ t" by simp
  from disg_step[OF d0] obtain xs1 where s1: "xs0 = CHR ''t'' # xs1" and d1: "disg (CHR ''t'' # CHR ''h'' # b) xs1 = ''tps:@@'' @ t"
    by auto
  from disg_step[OF d1] obtain xs2 where s2: "xs1 = CHR ''t'' # xs2" and d2: "disg (CHR ''t'' # CHR ''t'' # CHR ''h'' # b) xs2 = ''ps:@@'' @ t"
    by auto
  from disg_step[OF d2] obtain xs3 where s3: "xs2 = CHR ''p'' # xs3" and d3: "disg (CHR ''p'' # CHR ''t'' # CHR ''t'' # CHR ''h'' # b) xs3 = ''s:@@'' @ t"
    by auto
  from disg_step[OF d3] obtain xs3' where s3': "xs3 = CHR ''s'' # xs3'" and d3': "disg (CHR ''s'' # CHR ''p'' # CHR ''t'' # CHR ''t'' # CHR ''h'' # b) xs3' = '':@@'' @ t"
    by auto
  from disg_step[OF d3'] obtain xs4 where s4: "xs3' = CHR '':'' # xs4" and d4: "disg (CHR '':'' # CHR ''s'' # CHR ''p'' # CHR ''t'' # CHR ''t'' # CHR ''h'' # b) xs4 = ''@@'' @ t"
    by auto
  from disg_step[OF d4] obtain xs5 where s5: "xs4 = CHR ''@'' # xs5" and d5: "disg (CHR ''@'' # CHR '':'' # CHR ''s'' # CHR ''p'' # CHR ''t'' # CHR ''t'' # CHR ''h'' # b) xs5 = ''@'' @ t"
    by auto
  from disg_step[OF d5] obtain xs6 where s6: "xs5 = CHR ''@'' # xs6"
    by auto
  from s0 s1 s2 s3 s3' s4 s5 s6 show ?thesis by simp
qed

lemma sublist_append_left: "sublist xs r \<Longrightarrow> sublist xs (p @ r)"
  by (auto simp: sublist_append)

lemma undisg_disg:
  assumes "\<not> sublist ''http:@@'' s" and "\<not> sublist ''https:@@'' s"
  shows "undisg bu (disg b s) = s"
  using assms
proof (induction "length s" arbitrary: s b bu rule: less_induct)
  case less
  show ?case
  proof (cases s)
    case Nil
    then show ?thesis by (simp add: replaceAll_Nil)
  next
    case (Cons x xs)
    consider "prefix ''https://'' s" | "prefix ''http://'' s"
      | "\<not> prefix ''https://'' s" "\<not> prefix ''http://'' s" by blast
    then show ?thesis
    proof cases
      case 1
      then obtain r where s: "s = ''https://'' @ r" by (auto simp: prefix_def)
      from less.prems[unfolded s] have "\<not> sublist ''http:@@'' r" and "\<not> sublist ''https:@@'' r"
        by (blast dest: sublist_append_left)+
      from less.hyps[OF _ this] have "undisg (rev ''https:@@'' @ bu) (disg (rev ''https://'' @ b) r) = r"
        unfolding s by simp
      then show ?thesis
        unfolding s by (simp only: disg_https undisg_https)
    next
      case 2
      then obtain r where s: "s = ''http://'' @ r" by (auto simp: prefix_def)
      from less.prems[unfolded s] have "\<not> sublist ''http:@@'' r" and "\<not> sublist ''https:@@'' r"
        by (blast dest: sublist_append_left)+
      from less.hyps[OF _ this] have "undisg (rev ''http:@@'' @ bu) (disg (rev ''http://'' @ b) r) = r"
        unfolding s by simp
      then show ?thesis
        unfolding s by (simp only: disg_http undisg_http)
    next
      case 3
      from 3 have d: "disg b s = x # disg (x # b) xs"
        unfolding Cons by (rule disg_other)
      from less.prems have p: "\<not> prefix ''http:@@'' s" "\<not> prefix ''https:@@'' s" by auto
      from disg_prefix_http[of b s] 3 p have u1: "\<not> prefix ''http:@@'' (x # disg (x # b) xs)"
        unfolding d by blast
      from disg_prefix_https[of b s] 3 p have u2: "\<not> prefix ''https:@@'' (x # disg (x # b) xs)"
        unfolding d by blast
      from less.prems have "\<not> sublist ''http:@@'' xs" and "\<not> sublist ''https:@@'' xs"
        unfolding Cons by (auto simp: sublist_Cons_right)
      from less.hyps[OF _ this, of "x # bu" "x # b"] have "undisg (x # bu) (disg (x # b) xs) = xs"
        unfolding Cons by simp
      with undisg_other[OF u2 u1, of bu] d Cons show ?thesis by simp
    qed
  qed
qed

text \<open>
  Claim C10: for a text with no occurrence of \<open>http:@@\<close> or \<open>https:@@\<close>, undisguising
  the disguised text gives the text back.
\<close>

theorem disguise_roundtrip:
  assumes "\<not> sublist ''http:@@'' s" and "\<not> sublist ''https:@@'' s"
  shows "undisguiseLinks (disguiseLinks s) = s"
  unfolding undisguiseLinks_def disguiseLinks_def ReplaceAllString_def
  by (rule undisg_disg[OF assms])

theorem disguise_roundtrip_witness:
  "\<not> sublist ''http:@@'' ''see http://a.b and https://c''
   \<and> \<not> sublist ''https:@@'' ''see http://a.b and https://c''
   \<and> disguiseLinks ''see http://a.b and https://c'' = ''see http:@@a.b and https:@@c''
   \<and> undisguiseLinks (disguiseLinks ''see http://a.b and https://c'') = ''see http://a.b and https://c''"
proof -
  have a: "\<not> sublist ''http:@@'' ''see http://a.b and https://c''"
    by (simp add: sublist_Cons_right)
  have b: "\<not> sublist ''https:@@'' ''see http://a.b and https://c''"
    by (simp add: sublist_Cons_right)
  have c: "disguiseLinks ''see http://a.b and https://c'' = ''see http:@@a.b and https:@@c''"
    by (simp add: disguiseLinks_def ReplaceAllString_def replaceAll.simps httpLinkDisguiseRegexp_def)
  from disguise_roundtrip[OF a b] a b c show ?thesis by simp
qed

text \<open>
  The hypothesis is needed: an occurrence that is already there is undisguised as well.
\<close>

lemma disguise_roundtrip_needs_hypothesis:
  "undisguiseLinks (disguiseLinks ''http:@@'') = ''http://''"
  by (simp add: disguiseLinks_def undisguiseLinks_def ReplaceAllString_def replaceAll.simps httpLinkDisguiseRegexp_def httpLinkUndisguiseRegexp_def)

section \<open>Properties of link conversion\<close>

subsection \<open>Marked links\<close>

lemma ms_Seq_head:
  assumes "ms r1 st = st1 # sts1" and "ms r2 st1 = st2 # sts2"
  shows "\<exists>sts. ms (Seq r1 r2) st = st2 # sts"
  using assms by simp

lemma ms_Cap_head:
  assumes "ms r (b, s, c) = (b', s', c') # sts"
  shows "\<exists>sts'. ms (Cap n r) (b, s, c) = (b', s', c'(n := take (length s - length s') s)) # sts'"
  using assms by simp

lemma ms_Star_Cls_head:
  assumes "\<forall>x\<in>set u. p x" and "tail = [] \<or> \<not> p (hd tail)"
  shows "\<exists>sts. ms (Star (Cls p)) (b, u @ tail, c) = (rev u @ b, tail, c) # sts"
  using assms
proof (induction u arbitrary: b)
  case Nil
  then have "ms (Cls p) (b, tail, c) = []" by (cases tail) auto
  then show ?case by simp
next
  case (Cons x u)
  from Cons.prems have "ms (Cls p) (b, (x # u) @ tail, c) = [(x # b, u @ tail, c)]" by simp
  moreover from Cons.IH[of "x # b"] Cons.prems
  obtain sts where "ms (Star (Cls p)) (x # b, u @ tail, c) = (rev u @ x # b, tail, c) # sts"
    by auto
  ultimately show ?case by simp
qed

lemma ms_marked_head:
  assumes "T \<noteq> []" and "CHR ''@'' \<notin> set T"
  shows "\<exists>b' sts. ms markedLinkRegexp (b, (''(@@'' @ T @ ''@@)'') @ tail, \<lambda>_. [])
           = (b', tail, (\<lambda>_. [])(1 := T)) # sts"
proof -
  let ?p = "\<lambda>c. c \<noteq> CHR ''@''"
  let ?c = "\<lambda>_::nat. []::string"
  let ?tail = "''@@)'' @ tail"
  from assms(1) obtain x u where T: "T = x # u" by (cases T) auto
  have s1: "ms (Lit ''(@@'') (b, ''(@@'' @ T @ ?tail, ?c) = [(rev ''(@@'' @ b, T @ ?tail, ?c)]"
    by simp
  from assms(2) T have s2: "ms (Cls ?p) (rev ''(@@'' @ b, T @ ?tail, ?c) = [(x # rev ''(@@'' @ b, u @ ?tail, ?c)]"
    by auto
  from assms(2) T have "\<forall>y\<in>set u. ?p y" by auto
  from ms_Star_Cls_head[OF this, of ?tail "x # rev ''(@@'' @ b" ?c]
  obtain sts where s3: "ms (Star (Cls ?p)) (x # rev ''(@@'' @ b, u @ ?tail, ?c)
                          = (rev u @ x # rev ''(@@'' @ b, ?tail, ?c) # sts"
    by auto
  from ms_Seq_head[OF s2 s3]
  obtain sts4 where s4: "ms (Seq (Cls ?p) (Star (Cls ?p))) (rev ''(@@'' @ b, T @ ?tail, ?c)
                          = (rev u @ x # rev ''(@@'' @ b, ?tail, ?c) # sts4"
    by auto
  from ms_Cap_head[OF s4, of 1]
  obtain sts5 where s5: "ms (Cap 1 (Seq (Cls ?p) (Star (Cls ?p)))) (rev ''(@@'' @ b, T @ ?tail, ?c)
                          = (rev u @ x # rev ''(@@'' @ b, ?tail, ?c(1 := T)) # sts5"
    by auto
  have s6: "ms (Lit ''@@)'') (rev u @ x # rev ''(@@'' @ b, ?tail, ?c(1 := T))
              = [(rev ''@@)'' @ rev u @ x # rev ''(@@'' @ b, tail, ?c(1 := T))]"
    by simp
  from ms_Seq_head[OF s5 s6]
  obtain sts7 where s7: "ms (Seq (Cap 1 (Seq (Cls ?p) (Star (Cls ?p)))) (Lit ''@@)''))
                            (rev ''(@@'' @ b, T @ ?tail, ?c)
                          = (rev ''@@)'' @ rev u @ x # rev ''(@@'' @ b, tail, ?c(1 := T)) # sts7"
    by auto
  from ms_Seq_head[OF s1 s7]
  obtain sts8 where "ms (Seq (Lit ''(@@'') (Seq (Cap 1 (Seq (Cls ?p) (Star (Cls ?p)))) (Lit ''@@)'')))
                            (b, ''(@@'' @ T @ ?tail, ?c)
                          = (rev ''@@)'' @ rev u @ x # rev ''(@@'' @ b, tail, ?c(1 := T)) # sts8"
    by auto
  then show ?thesis by (simp add: markedLinkRegexp_def)
qed

lemma replaceAll_marked:
  assumes "T \<noteq> []" and "CHR ''@'' \<notin> set T"
  shows "replaceAll markedLinkRegexp f b ((''(@@'' @ T @ ''@@)'') @ tail)
           = f ((\<lambda>_. [])(1 := T, 0 := ''(@@'' @ T @ ''@@)''))
             @ replaceAll markedLinkRegexp f (rev (''(@@'' @ T @ ''@@)'') @ b) tail"
proof -
  from ms_marked_head[OF assms, of b tail] obtain b' sts
    where "ms markedLinkRegexp (b, (''(@@'' @ T @ ''@@)'') @ tail, \<lambda>_. [])
             = (b', tail, (\<lambda>_. [])(1 := T)) # sts" by auto
  from replaceAll_match[OF this, of f] show ?thesis by simp
qed

lemma marked_group:
  assumes "T \<noteq> []" and "CHR ''@'' \<notin> set T"
  shows "ReplaceAllString markedLinkRegexp (''(@@'' @ T @ ''@@)'') [TGroup 1] = T"
  using replaceAll_marked[OF assms, of "expand [TGroup 1]" "[]" "[]"]
  by (simp add: ReplaceAllString_def replaceAll_Nil)

lemma prefix_mark_open:
  assumes "CHR ''@'' \<notin> set u" and "prefix ''(@@'' (u @ ''@@)'' @ tail)"
  shows "u = ''(''"
proof (cases u)
  case Nil
  with assms show ?thesis by simp
next
  case (Cons a u')
  note u = Cons
  show ?thesis
  proof (cases u')
    case Nil
    with u assms show ?thesis by simp
  next
    case (Cons a' u'')
    with u assms show ?thesis by auto
  qed
qed

lemma ms_noText_none:
  assumes "CHR ''@'' \<notin> set u"
  shows "ms noTextMarkedLinkRegexp (b, x # u @ ''@@)'' @ zeroWidthSpace, c) = []"
proof (cases "prefix ''(@@'' (u @ ''@@)'' @ zeroWidthSpace)")
  case False
  then show ?thesis by (simp add: noTextMarkedLinkRegexp_def)
next
  case True
  from prefix_mark_open[OF assms True] have "u = ''(''" .
  then show ?thesis by (simp add: noTextMarkedLinkRegexp_def zeroWidthSpace_def)
qed

lemma noText_tail:
  "replaceAll noTextMarkedLinkRegexp f b (''@@)'' @ zeroWidthSpace) = ''@@)'' @ zeroWidthSpace"
  by (simp add: replaceAll_skip replaceAll_Nil noTextMarkedLinkRegexp_def zeroWidthSpace_def)

lemma noText_over:
  assumes "CHR ''@'' \<notin> set u"
  shows "replaceAll noTextMarkedLinkRegexp f b (u @ ''@@)'' @ zeroWidthSpace)
           = u @ ''@@)'' @ zeroWidthSpace"
  using assms
proof (induction u arbitrary: b)
  case Nil
  show ?case using noText_tail[of f b] by simp
next
  case (Cons x u)
  from Cons.prems have n: "CHR ''@'' \<notin> set u" by simp
  have "replaceAll noTextMarkedLinkRegexp f b (x # u @ ''@@)'' @ zeroWidthSpace)
          = x # replaceAll noTextMarkedLinkRegexp f (x # b) (u @ ''@@)'' @ zeroWidthSpace)"
    by (rule replaceAll_skip) (rule ms_noText_none[OF n])
  with Cons.IH[OF n, of "x # b"] show ?case by simp
qed

lemma noText_marked_text:
  assumes "CHR ''@'' \<notin> set T"
  shows "replaceAll noTextMarkedLinkRegexp f [] (''[link text]'' @ (''(@@'' @ T @ ''@@)'') @ zeroWidthSpace)
           = ''[link text]'' @ (''(@@'' @ T @ ''@@)'') @ zeroWidthSpace"
proof -
  have a: "\<And>b. replaceAll noTextMarkedLinkRegexp f b (CHR ''@'' # T @ ''@@)'' @ zeroWidthSpace)
             = CHR ''@'' # T @ ''@@)'' @ zeroWidthSpace"
  proof -
    fix b
    have "replaceAll noTextMarkedLinkRegexp f b (CHR ''@'' # T @ ''@@)'' @ zeroWidthSpace)
            = CHR ''@'' # replaceAll noTextMarkedLinkRegexp f (CHR ''@'' # b) (T @ ''@@)'' @ zeroWidthSpace)"
      by (rule replaceAll_skip) (rule ms_noText_none[OF assms])
    with noText_over[OF assms, of f "CHR ''@'' # b"]
    show "replaceAll noTextMarkedLinkRegexp f b (CHR ''@'' # T @ ''@@)'' @ zeroWidthSpace)
             = CHR ''@'' # T @ ''@@)'' @ zeroWidthSpace" by simp
  qed
  have s: "\<And>b x xs. ms noTextMarkedLinkRegexp (b, x # xs, \<lambda>_. []) = [] \<Longrightarrow>
             replaceAll noTextMarkedLinkRegexp f b (x # xs) = x # replaceAll noTextMarkedLinkRegexp f (x # b) xs"
    by (rule replaceAll_skip)
  have m: "\<And>b x y xs. y \<noteq> CHR ''('' \<Longrightarrow> ms noTextMarkedLinkRegexp (b, x # y # xs, \<lambda>_. []) = []"
    by (simp add: noTextMarkedLinkRegexp_def)
  have m2: "\<And>b x y xs. y \<noteq> CHR ''@'' \<Longrightarrow> ms noTextMarkedLinkRegexp (b, x # CHR ''('' # y # xs, \<lambda>_. []) = []"
    by (simp add: noTextMarkedLinkRegexp_def)
  have m3: "\<And>b xs. ms noTextMarkedLinkRegexp (b, CHR '']'' # xs, \<lambda>_. []) = []"
    by (simp add: noTextMarkedLinkRegexp_def)
  show ?thesis
    by (simp add: s m m2 m3 a[simplified])
qed

lemma marked_marked_text:
  assumes "T \<noteq> []" and "CHR ''@'' \<notin> set T"
  shows "replaceAll markedLinkRegexp f [] (''[link text]'' @ (''(@@'' @ T @ ''@@)'') @ zeroWidthSpace)
         = ''[link text]'' @ f ((\<lambda>_. [])(1 := T, 0 := ''(@@'' @ T @ ''@@)'')) @ zeroWidthSpace"
proof -
  have s: "\<And>b x xs. x \<noteq> CHR ''('' \<Longrightarrow>
             replaceAll markedLinkRegexp f b (x # xs) = x # replaceAll markedLinkRegexp f (x # b) xs"
    by (rule replaceAll_skip) (simp add: markedLinkRegexp_def)
  have z: "\<And>b. replaceAll markedLinkRegexp f b zeroWidthSpace = zeroWidthSpace"
    by (simp add: replaceAll_skip replaceAll_Nil markedLinkRegexp_def zeroWidthSpace_def)
  have "replaceAll markedLinkRegexp f [] (''[link text]'' @ (''(@@'' @ T @ ''@@)'') @ zeroWidthSpace)
          = ''[link text]'' @ replaceAll markedLinkRegexp f (rev ''[link text]'') ((''(@@'' @ T @ ''@@)'') @ zeroWidthSpace)"
    by (simp add: s)
  also have "replaceAll markedLinkRegexp f (rev ''[link text]'') ((''(@@'' @ T @ ''@@)'') @ zeroWidthSpace)
          = f ((\<lambda>_. [])(1 := T, 0 := ''(@@'' @ T @ ''@@)'')) @ zeroWidthSpace"
    by (simp only: replaceAll_marked[OF assms] z)
  finally show ?thesis .
qed

lemma not_prefix_zws:
  assumes "\<not> sublist zeroWidthSpace u"
  shows "\<not> prefix zeroWidthSpace (u @ CHR '')'' # tail)"
proof
  assume p: "prefix zeroWidthSpace (u @ CHR '')'' # tail)"
  show False
  proof (cases u)
    case Nil
    with p show False by (simp add: zeroWidthSpace_def)
  next
    case (Cons a u1)
    note u = Cons
    show False
    proof (cases u1)
      case Nil
      with p u show False by (simp add: zeroWidthSpace_def)
    next
      case (Cons a2 u2)
      note u1 = Cons
      show False
      proof (cases u2)
        case Nil
        with p u u1 show False by (simp add: zeroWidthSpace_def)
      next
        case (Cons a3 u3)
        with p u u1 have "prefix zeroWidthSpace u" by (simp add: zeroWidthSpace_def)
        with assms show False by auto
      qed
    qed
  qed
qed

lemma remove_zws_over:
  assumes "\<not> sublist zeroWidthSpace u"
  shows "replaceAll (Lit zeroWidthSpace) (\<lambda>c. []) b (u @ '')'' @ zeroWidthSpace) = u @ '')''"
  using assms
proof (induction u arbitrary: b)
  case Nil
  show ?case
    using replaceAll_match[of "Lit zeroWidthSpace" "CHR '')'' # b" zeroWidthSpace "[]" _ "\<lambda>_. []" "[]" "\<lambda>c. []"]
    by (simp add: replaceAll_skip replaceAll_Nil zeroWidthSpace_def)
next
  case (Cons x u)
  from Cons.prems have n: "\<not> sublist zeroWidthSpace u" by (auto simp: sublist_Cons_right)
  from not_prefix_zws[OF Cons.prems, of "zeroWidthSpace"]
  have "ms (Lit zeroWidthSpace) (b, x # u @ '')'' @ zeroWidthSpace, \<lambda>_. []) = []" by simp
  from replaceAll_skip[OF this] Cons.IH[OF n, of "x # b"] show ?case by simp
qed

lemma remove_zws_text:
  assumes "\<not> sublist zeroWidthSpace T"
  shows "ReplaceAll (''[link text]'' @ (''('' @ T @ '')'') @ zeroWidthSpace) zeroWidthSpace []
           = ''[link text]('' @ T @ '')''"
proof -
  have s: "\<And>b x xs. x \<noteq> CHR 0xE2 \<Longrightarrow>
             replaceAll (Lit zeroWidthSpace) (\<lambda>c. []) b (x # xs) = x # replaceAll (Lit zeroWidthSpace) (\<lambda>c. []) (x # b) xs"
    by (rule replaceAll_skip) (simp add: zeroWidthSpace_def)
  show ?thesis
    unfolding ReplaceAll_def using remove_zws_over[OF assms]
    by (simp add: s)
qed

lemma unmark_text:
  assumes "T \<noteq> []" and "CHR ''@'' \<notin> set T" and "\<not> sublist zeroWidthSpace T"
  shows "unmarkLinks (''[link text]'' @ markLink T @ zeroWidthSpace) = ''[link text]('' @ T @ '')''"
  unfolding unmarkLinks_def ReplaceAllStringFunc_def Let_def markLink_def
  by (simp only: noText_marked_text[OF assms(2)] marked_marked_text[OF assms(1,2)]
      fun_upd_same marked_group[OF assms(1,2)] remove_zws_text[OF assms(3)])

subsection \<open>A double-bracket wiki link\<close>

lemma phase1:
  "convertBrackettedTracLinks converter wikiPage ''[[WikiPage|link text]]''
     = ''[link text]WikiPage'' @ zeroWidthSpace"
  by (simp add: convertBrackettedTracLinks_def link_regexp_defs regexp_api_defs class_defs
      EqualFold_def asciiLower_def Let_def)

lemma phase2:
  "convertUnbrackettedTracLinks converter ticketID wikiPage (''[link text]WikiPage'' @ zeroWidthSpace) w
     = (''[link text]'' @ markLink (TranslateWikiPageName (giteaAccessor converter) ''WikiPage'')
        @ zeroWidthSpace, w)"
  by (simp add: convertUnbrackettedTracLinks_def resolveHTTPLink_def resolveChangesetLink_def
      resolveSourceLink_def resolveWikiLink_def resolveWikiCamelCaseLink_def
      link_regexp_defs regexp_api_defs class_defs Let_def)


text \<open>
  Claim C5: the double-bracket link with target \<open>WikiPage\<close> and text
  \<open>link text\<close>, separated by a bar, is converted to the Markdown link with
  that text and the translated page name \<open>T\<close> as its target: the
  bracketed pass rewrites it to the deferred form (the link text in brackets, then the
  bare page name closed by a zero-width space), the unbracketed pass resolves the
  CamelCase page name and marks it, and the last pass unmarks it into Markdown.  The
  translated name is taken to be non-empty, free of the mark character, and free of
  the zero-width space, as the link mark requires.
\<close>
theorem double_bracket_wiki_link:
  assumes "TranslateWikiPageName (giteaAccessor converter) ''WikiPage'' \<noteq> []"
    and "CHR ''@'' \<notin> set (TranslateWikiPageName (giteaAccessor converter) ''WikiPage'')"
    and "\<not> sublist zeroWidthSpace (TranslateWikiPageName (giteaAccessor converter) ''WikiPage'')"
  shows "convertBrackettedTracLinks converter wikiPage ''[[WikiPage|link text]]''
           = ''[link text]WikiPage'' @ zeroWidthSpace
       \<and> convertUnbrackettedTracLinks converter ticketID wikiPage
             (''[link text]WikiPage'' @ zeroWidthSpace) w
           = (''[link text]'' @ markLink (TranslateWikiPageName (giteaAccessor converter) ''WikiPage'')
              @ zeroWidthSpace, w)
       \<and> convertLinks converter ticketID wikiPage ''[[WikiPage|link text]]'' w
           = (''[link text]('' @ TranslateWikiPageName (giteaAccessor converter) ''WikiPage'' @ '')'', w)"
proof -
  have "convertLinks converter ticketID wikiPage ''[[WikiPage|link text]]'' w
          = (unmarkLinks (''[link text]'' @ markLink (TranslateWikiPageName (giteaAccessor converter) ''WikiPage'')
              @ zeroWidthSpace), w)"
    by (simp only: convertLinks_def Let_def phase1 phase2 split_conv)
  with unmark_text[OF assms] phase1 phase2 show ?thesis by simp
qed

theorem double_bracket_wiki_link_witness:
  "TranslateWikiPageName (giteaAccessor exConverter) ''WikiPage'' = ''WikiPage''
   \<and> convertLinks exConverter 5 [] ''[[WikiPage|link text]]'' [] = (''[link text](WikiPage)'', [])"
proof -
  have t: "TranslateWikiPageName (giteaAccessor exConverter) ''WikiPage'' = ''WikiPage''"
    by (simp add: exConverter_def exGitea_def)
  have a: "TranslateWikiPageName (giteaAccessor exConverter) ''WikiPage'' \<noteq> []"
    by (simp add: t)
  have b: "CHR ''@'' \<notin> set (TranslateWikiPageName (giteaAccessor exConverter) ''WikiPage'')"
    by (simp add: t)
  have c: "\<not> sublist zeroWidthSpace (TranslateWikiPageName (giteaAccessor exConverter) ''WikiPage'')"
    by (simp add: t zeroWidthSpace_def sublist_Cons_right)
  from double_bracket_wiki_link[OF a b c, of "[]" 5 "[]"] t show ?thesis by simp
qed

lemma mark_needs_payload_without_at:
  "unmarkLinks (''[link text]'' @ markLink ''Wiki@Page'' @ zeroWidthSpace) = ''[link text](@@Wiki@Page@@)''"
  by (simp add: unmarkLinks_def markLink_def link_regexp_defs regexp_api_defs class_defs ReplaceAll_def Let_def)

section \<open>References that cannot be resolved\<close>

subsection \<open>Each resolver, and a pass\<close>

lemma resolveTicketLink_unresolved:
  assumes "case ParseInt (ReplaceAllString ticketLinkRegexp link [TGroup 1]) of
             None \<Rightarrow> True
           | Some linkTicketID \<Rightarrow>
               GetIssueID (giteaAccessor converter) linkTicketID \<in> {None, Some (giteaNullID converter)}"
  shows "fst (resolveTicketLink converter link w) = link"
  using assms by (auto simp add: resolveTicketLink_def Let_def split: option.splits)

lemma resolveMilestoneLink_unresolved:
  assumes "GetMilestoneID (giteaAccessor converter) (ReplaceAllString milestoneLinkRegexp link [TGroup 1])
             \<in> {None, Some (giteaNullID converter)}"
  shows "fst (resolveMilestoneLink converter link w) = link"
  using assms by (auto simp add: resolveMilestoneLink_def Let_def split: option.splits)

lemma resolveTicketAttachmentLink_unresolved:
  assumes "case GetIssueID (giteaAccessor converter) ticketID of
             None \<Rightarrow> True
           | Some issueID \<Rightarrow>
               issueID = giteaNullID converter
               \<or> GetIssueAttachmentUUID (giteaAccessor converter) issueID attachmentName \<in> {None, Some []}"
  shows "fst (resolveTicketAttachmentLink converter ticketID attachmentName link w) = link"
  using assms by (auto simp add: resolveTicketAttachmentLink_def split: option.splits)

lemma resolveAttachmentLink_unresolved:
  assumes "let attachmentName = ReplaceAllString attachmentLinkRegexp link [TGroup 1];
               attachmentWikiPage = ReplaceAllString attachmentLinkRegexp link [TGroup 2];
               attachmentTicketIDStr = ReplaceAllString attachmentLinkRegexp link [TGroup 3]
           in if attachmentTicketIDStr \<noteq> [] then
                (case ParseInt attachmentTicketIDStr of
                   None \<Rightarrow> True
                 | Some attachmentTicketID \<Rightarrow>
                     (case GetIssueID (giteaAccessor converter) attachmentTicketID of
                        None \<Rightarrow> True
                      | Some issueID \<Rightarrow>
                          issueID = giteaNullID converter
                          \<or> GetIssueAttachmentUUID (giteaAccessor converter) issueID attachmentName
                               \<in> {None, Some []}))
              else attachmentWikiPage = []
                   \<and> (if ticketID \<noteq> tracNullID converter then
                        (case GetIssueID (giteaAccessor converter) ticketID of
                           None \<Rightarrow> True
                         | Some issueID \<Rightarrow>
                             issueID = giteaNullID converter
                             \<or> GetIssueAttachmentUUID (giteaAccessor converter) issueID attachmentName
                                  \<in> {None, Some []})
                      else wikiPage = [])"
  shows "fst (resolveAttachmentLink converter ticketID wikiPage link w) = link"
  using assms
  by (auto simp add: resolveAttachmentLink_def Let_def resolveTicketAttachmentLink_unresolved
      split: option.splits if_splits)

lemma resolveTicketCommentLink_unresolved:
  assumes "case ParseInt (ReplaceAllString ticketCommentLinkRegexp link [TGroup 1]) of
             None \<Rightarrow> True
           | Some commentNum \<Rightarrow>
               (let commentTicketIDStr = ReplaceAllString ticketCommentLinkRegexp link [TGroup 2] in
                case (if commentTicketIDStr \<noteq> [] then ParseInt commentTicketIDStr
                      else if ticketID = tracNullID converter then None else Some ticketID) of
                  None \<Rightarrow> True
                | Some commentTicketID \<Rightarrow>
                    (case GetIssueID (giteaAccessor converter) commentTicketID of
                       None \<Rightarrow> True
                     | Some issueID \<Rightarrow>
                         issueID = giteaNullID converter
                         \<or> (case GetTicketCommentTime (tracAccessor converter) commentTicketID commentNum of
                               None \<Rightarrow> True
                             | Some timestamp \<Rightarrow>
                                 timestamp = 0
                                 \<or> GetIssueCommentIDsByTime (giteaAccessor converter) issueID timestamp
                                      \<in> {None, Some []})))"
  shows "fst (resolveTicketCommentLink converter ticketID link w) = link"
  using assms
  by (auto simp add: resolveTicketCommentLink_def Let_def split: option.splits if_splits)

lemma pass_all_unresolved:
  assumes "\<And>x w. fst (f x w) = x"
  shows "fst (replaceAllW r (\<lambda>c. f (c 0)) b s w) = s"
proof (induction "length s" arbitrary: s b w rule: less_induct)
  case less
  show ?case
  proof (cases "leftmost r b s")
    case None
    then show ?thesis by (subst replaceAllW.simps) simp
  next
    case (Some a)
    obtain skip m c rest where a: "a = (skip, m, c, rest)" by (cases a)
    from leftmost_decomp Some a have d: "s = skip @ m @ rest" by blast
    show ?thesis
    proof (cases "m = []")
      case True
      with Some a show ?thesis by (subst replaceAllW.simps) simp
    next
      case False
      with d have "length rest < length s" by simp
      from less[OF this] have ih: "\<And>b w. fst (replaceAllW r (\<lambda>c. f (c 0)) b rest w) = rest" .
      obtain new w' where n: "f m w = (new, w')" by (cases "f m w")
      with assms[of m w] have nm: "new = m" by simp
      obtain out w'' where o: "replaceAllW r (\<lambda>c. f (c 0)) (rev m @ rev skip @ b) rest w' = (out, w'')"
        by (cases "replaceAllW r (\<lambda>c. f (c 0)) (rev m @ rev skip @ b) rest w'")
      with ih[of "rev m @ rev skip @ b" w'] have "out = rest" by simp
      with Some a False n nm o d show ?thesis
        by (subst replaceAllW.simps) simp
    qed
  qed
qed

subsection \<open>A link with a ticket suffix\<close>

lemma comment_link_resolver_literal: "fst (resolveTicketCommentLink exConverter 5 ''comment:1:ticket:5'' []) = ''comment:1:ticket:5''"
  by (simp add: link_defs link_regexp_defs regexp_api_defs class_defs exConverter_def exGitea_def
      exTrac_def Let_def)

lemma comment_link_unbracketted: "convertUnbrackettedTracLinks exConverter 5 [] ''comment:1:ticket:5'' []
         = (''comment:1:(@@issues/50@@)'', [])"
  by (simp add: link_defs link_regexp_defs regexp_api_defs class_defs exConverter_def exGitea_def
      exTrac_def Let_def)

lemma comment_link_bracketted: "convertBrackettedTracLinks exConverter [] ''comment:1:ticket:5'' = ''comment:1:ticket:5''"
  by (simp add: link_defs link_regexp_defs regexp_api_defs class_defs exConverter_def exGitea_def
      exTrac_def Let_def)

lemma comment_link_unmarked: "unmarkLinks ''comment:1:(@@issues/50@@)'' = ''comment:1:[issues/50](issues/50)''"
  by (simp add: link_defs link_regexp_defs regexp_api_defs class_defs Let_def)

lemma comment_link_convertLinks: "convertLinks exConverter 5 [] ''comment:1:ticket:5'' [] = (''comment:1:[issues/50](issues/50)'', [])"
  by (simp only: convertLinks_def Let_def comment_link_bracketted comment_link_unbracketted comment_link_unmarked split_conv)

lemma comment_link_codeBlocks: "convertCodeBlocks ''comment:1:ticket:5'' [] = (''comment:1:ticket:5'', [])"
  by (simp add: codeBlock_defs regexp_api_defs class_defs)

lemma comment_link_nonCodeBlockText: "convertNonCodeBlockText exConverter 5 [] ''comment:1:ticket:5'' []
    = (''comment:1:[issues/50](issues/50)'', [])"
proof -
  have a: "removeTOC ''comment:1:ticket:5'' = ''comment:1:ticket:5''"
    by (simp add: removeTOC_def tocRegexp_def regexp_api_defs class_defs)
  have b: "disguiseLinks ''comment:1:[issues/50](issues/50)'' = ''comment:1:[issues/50](issues/50)''"
    by (simp add: link_defs link_regexp_defs regexp_api_defs class_defs)
  have c: "undisguiseLinks ''comment:1:[issues/50](issues/50)'' = ''comment:1:[issues/50](issues/50)''"
    by (simp add: link_defs link_regexp_defs regexp_api_defs class_defs)
  have e: "convertAnchors exConverter = id" "convertEscapes exConverter = id" "convertLists exConverter = id"
    "convertDefinitionLists exConverter = id" "convertHeadings exConverter = id"
    "convertFontStyles exConverter = id" "convertBlockQuotes exConverter = id"
    "convertTables exConverter = id" "convertParagraphs exConverter = id"
    by (simp_all add: exConverter_def)
  show ?thesis
    by (simp only: convertNonCodeBlockText_def Let_def a comment_link_convertLinks split_conv e id_apply b c)
qed

lemma comment_link_nonCodeBlocks: "convertNonCodeBlocks ''comment:1:ticket:5'' (convertNonCodeBlockText exConverter 5 []) []
    = (''comment:1:[issues/50](issues/50)'', [])"
  by (simp add: convertNonCodeBlocks_def nonCodeBlockRegexp_def regexp_api_defs disguiseOpen_def
      disguiseClose_def comment_link_nonCodeBlockText)

lemma comment_link_undisguised: "undisguiseCodeBlocks ''comment:1:[issues/50](issues/50)'' = ''comment:1:[issues/50](issues/50)''"
  by (simp add: undisguiseCodeBlocks_def singleLineCodeBlockRegexp_def regexp_api_defs ReplaceAll_def
      disguiseOpen_def disguiseClose_def)

lemma attachment_link_resolver_literal:
  "fst (resolveAttachmentLink exConverter 5 [] ''attachment:a.txt:ticket:5'' [])
     = ''attachment:a.txt:ticket:5''"
  by (simp add: link_defs link_regexp_defs regexp_api_defs class_defs exConverter_def exGitea_def
      exTrac_def Let_def)

lemma attachment_link_unbracketted:
  "fst (convertUnbrackettedTracLinks exConverter 5 [] ''attachment:a.txt:ticket:5'' [])
     = ''attachment:a.txt:(@@issues/50@@)''"
  by (simp add: link_defs link_regexp_defs regexp_api_defs class_defs exConverter_def exGitea_def
      exTrac_def Let_def)

lemma unresolved_standalone_ticket_link:
  "fst (convertUnbrackettedTracLinks exConverter 5 [] ''see ticket:6'' []) = ''see ticket:6''"
  by (simp add: link_defs link_regexp_defs regexp_api_defs class_defs exConverter_def exGitea_def
      exTrac_def Let_def)

text \<open>
  Claim C2: an occurrence of a link whose resolution fails is left as it was written, with
  no mark, and the rest of the text is converted. Every resolver does return the text of the
  occurrence on failure, and a ticket link on its own that has no issue stays as written.
  The conversion does not keep the text of a comment link or an attachment link with a
  ticket suffix, though: when the comment or the attachment is not found while the ticket
  has an issue, the resolver returns the text as written, the later pass over ticket links
  finds the suffix in it and marks it, and the result links the suffix alone.
\<close>

theorem unresolved_suffix_link_is_marked:
  "GetTicketCommentTime (tracAccessor exConverter) 5 1 = Some 0
   \<and> fst (resolveTicketCommentLink exConverter 5 ''comment:1:ticket:5'' []) = ''comment:1:ticket:5''
   \<and> fst (convertUnbrackettedTracLinks exConverter 5 [] ''comment:1:ticket:5'' [])
       = ''comment:1:'' @ markLink ''issues/50''
   \<and> fst (TicketConvert exConverter 5 ''comment:1:ticket:5'' []) = ''comment:1:[issues/50](issues/50)''
   \<and> GetIssueAttachmentUUID (giteaAccessor exConverter) 50 ''a.txt'' = Some []
   \<and> fst (resolveAttachmentLink exConverter 5 [] ''attachment:a.txt:ticket:5'' [])
       = ''attachment:a.txt:ticket:5''
   \<and> fst (convertUnbrackettedTracLinks exConverter 5 [] ''attachment:a.txt:ticket:5'' [])
       = ''attachment:a.txt:'' @ markLink ''issues/50''"
proof -
  have a: "GetTicketCommentTime (tracAccessor exConverter) 5 1 = Some 0"
    by (simp add: exConverter_def exTrac_def)
  have u: "GetIssueAttachmentUUID (giteaAccessor exConverter) 50 ''a.txt'' = Some []"
    by (simp add: exConverter_def exGitea_def)
  have e: "convertEOL exConverter = id" by (simp add: exConverter_def)
  have t: "TicketConvert exConverter 5 ''comment:1:ticket:5'' [] = (''comment:1:[issues/50](issues/50)'', [])"
    by (simp only: TicketConvert_def convert_def Let_def e id_apply comment_link_codeBlocks
        comment_link_nonCodeBlocks comment_link_undisguised split_conv)
  from a u comment_link_resolver_literal comment_link_unbracketted t
    attachment_link_resolver_literal attachment_link_unbracketted
  show ?thesis by (simp add: markLink_def)
qed

end
